theory Spec2Isabelle
  imports Main
begin

section \<open>JavaScript values, exceptions and the console\<close>

text \<open>
  The values that flow through a Signal. The class never inspects a value except to
  compare a validator's verdict with the literal \<open>true\<close>, so numbers carry an integer
  payload and an object is its reference.
\<close>

datatype jsval = JUndefined | JNull | JBool bool | JNum int | JStr string | JObj nat

text \<open>
  A thrown \<open>new Error(message)\<close>. The constructor's documentation fixes the contract of
  the callbacks: a parser returns the parsed value or throws an error, a validator
  returns \<open>true\<close> or an error message.
\<close>

datatype js_error = Error string

text \<open>How a call of an observer's work ends: it returns, or it throws.\<close>

datatype completion = Returned | Threw js_error

text \<open>
  The lines written by \<open>console.error\<close>: \<open>console.error(error.message)\<close> and
  \<open>console.error('Validation errors:', errors)\<close>.
\<close>

datatype console_line = ErrorLine string | ValidationErrors "jsval list"

section \<open>Observers, signals and the store\<close>

text \<open>
  The two object literals of Signal.js. \<open>Effect oid c fn\<close> is the object built by
  \<open>createEffect(fn)\<close> on the signal at reference \<open>c\<close>: its \<open>execute\<close> is the arrow
  function that pushes, calls \<open>fn\<close> and pops on \<open>this.context\<close>. \<open>Subscription oid fn\<close>
  is the object built by \<open>subscribe(fn)\<close>: its \<open>execute\<close> is \<open>fn\<close>. The number
  \<open>oid\<close> is the identity of the object (two objects built from the same function
  are different objects); \<open>'f\<close> is the type of the callbacks.
\<close>

datatype 'f observer = Effect nat nat 'f | Subscription nat 'f

fun oid :: "'f observer \<Rightarrow> nat" where
  "oid (Effect n c fn) = n"
| "oid (Subscription n fn) = n"

text \<open>
  The fields of a Signal. \<open>subscriptions\<close> is a JavaScript \<open>Set\<close>: its entries in
  insertion order, where a deleted entry stays in the list as \<open>None\<close> (the language
  definition's "empty" element), which is what makes an iteration see the additions and
  deletions made while it runs. \<open>context'\<close> is an array used as a stack: \<open>push\<close>
  appends, \<open>pop\<close> removes the last element.
\<close>

record 'f signal =
  value' :: jsval
  validators :: "(jsval \<Rightarrow> jsval \<Rightarrow> jsval) list"
  parsers :: "(jsval \<Rightarrow> js_error + jsval) list"
  subscriptions :: "'f observer option list"
  context' :: "'f observer list"

text \<open>
  The store: the Signal objects by reference, the counter that gives a new object its
  identity, the output of \<open>console.error\<close>, and the variables the callbacks close over.
\<close>

record 'f world =
  signals :: "nat \<Rightarrow> 'f signal"
  next_oid :: nat
  console :: "console_line list"
  globals :: "string \<Rightarrow> jsval"

text \<open>
  The behaviour of the callbacks: \<open>call fn w\<close> is \<open>None\<close> when \<open>fn\<close> called in
  the store \<open>w\<close> never returns, and otherwise how it completes and the store it leaves.
\<close>

type_synonym 'f calls = "'f \<Rightarrow> 'f world \<Rightarrow> (completion \<times> 'f world) option"

text \<open>\<open>constructor(initialValue, validators = [], parsers = [])\<close>\<close>

definition Signal :: "jsval \<Rightarrow> (jsval \<Rightarrow> jsval \<Rightarrow> jsval) list \<Rightarrow> (jsval \<Rightarrow> js_error + jsval) list \<Rightarrow> 'f signal" where
  "Signal initialValue vs ps =
     \<lparr>value' = initialValue, validators = vs, parsers = ps, subscriptions = [], context' = []\<rparr>"

subsection \<open>The operations of Set and Array that the class uses\<close>

text \<open>\<open>Set.prototype.add\<close>: an entry that is present stays where it is; a new one is appended.\<close>

definition Set_add :: "'a \<Rightarrow> 'a option list \<Rightarrow> 'a option list" where
  "Set_add x es = (if Some x \<in> set es then es else es @ [Some x])"

text \<open>\<open>Set.prototype.delete\<close>: the entry is replaced by the empty element; the result says whether it was there.\<close>

fun Set_delete :: "'a \<Rightarrow> 'a option list \<Rightarrow> bool \<times> 'a option list" where
  "Set_delete x [] = (False, [])"
| "Set_delete x (e # es) =
     (if e = Some x then (True, None # es)
      else (fst (Set_delete x es), e # snd (Set_delete x es)))"

text \<open>The elements of the set, in iteration order.\<close>

fun Set_values :: "'a option list \<Rightarrow> 'a list" where
  "Set_values [] = []"
| "Set_values (None # es) = Set_values es"
| "Set_values (Some x # es) = x # Set_values es"

definition update_signal :: "nat \<Rightarrow> ('f signal \<Rightarrow> 'f signal) \<Rightarrow> 'f world \<Rightarrow> 'f world" where
  "update_signal c f w = w\<lparr>signals := (signals w)(c := f (signals w c))\<rparr>"

text \<open>\<open>this.context.push(effect)\<close> and \<open>this.context.pop()\<close> (on an empty array \<open>pop\<close> changes nothing).\<close>

definition push_context :: "nat \<Rightarrow> 'f observer \<Rightarrow> 'f world \<Rightarrow> 'f world" where
  "push_context c ob w = update_signal c (\<lambda>s. s\<lparr>context' := context' s @ [ob]\<rparr>) w"

definition pop_context :: "nat \<Rightarrow> 'f world \<Rightarrow> 'f world" where
  "pop_context c w = update_signal c (\<lambda>s. s\<lparr>context' := butlast (context' s)\<rparr>) w"

text \<open>\<open>this.context[this.context.length - 1]\<close>: \<open>undefined\<close> on an empty array.\<close>

definition top_context :: "'f signal \<Rightarrow> 'f observer option" where
  "top_context s = (if context' s = [] then None else Some (last (context' s)))"

section \<open>The methods of Signal\<close>

text \<open>
  \<open>observer.execute()\<close>. For an effect: push, call \<open>fn\<close>, pop; the three statements
  stand in sequence with no handler, so the pop is reached only when \<open>fn\<close> returns.
\<close>

fun execute :: "'f calls \<Rightarrow> 'f observer \<Rightarrow> 'f world \<Rightarrow> (completion \<times> 'f world) option" where
  "execute call (Effect n c fn) w =
     (case call fn (push_context c (Effect n c fn) w) of
        None \<Rightarrow> None
      | Some (Threw e, w') \<Rightarrow> Some (Threw e, w')
      | Some (Returned, w') \<Rightarrow> Some (Returned, pop_context c w'))"
| "execute call (Subscription n fn) w = call fn w"

text \<open>
  The parse loop of \<open>write\<close>: each parser is applied to the result of the one before;
  the first one that throws ends the loop.
\<close>

fun run_parsers :: "(jsval \<Rightarrow> js_error + jsval) list \<Rightarrow> jsval \<Rightarrow> js_error + jsval" where
  "run_parsers [] v = Inr v"
| "run_parsers (parse # ps) v =
     (case parse v of Inl e \<Rightarrow> Inl e | Inr v' \<Rightarrow> run_parsers ps v')"

text \<open>
  The notification loop \<open>for (const observer of this.subscriptions) observer.execute()\<close>.
  The iterator holds an index into the entries of the set and reads the entries anew at
  every step; empty entries are skipped. The first argument bounds the number of steps
  (\<open>None\<close>: the bound was reached, or a callback did not return). The result lists the
  observers whose \<open>execute\<close> the loop called, in order.
\<close>

fun notify :: "nat \<Rightarrow> 'f calls \<Rightarrow> nat \<Rightarrow> nat \<Rightarrow> 'f world \<Rightarrow> (completion \<times> 'f observer list \<times> 'f world) option" where
  "notify 0 call c i w = None"
| "notify (Suc fuel) call c i w =
     (if i < length (subscriptions (signals w c)) then
        (case subscriptions (signals w c) ! i of
           None \<Rightarrow> notify fuel call c (i + 1) w
         | Some observer \<Rightarrow>
             (case execute call observer w of
                None \<Rightarrow> None
              | Some (Threw e, w') \<Rightarrow> Some (Threw e, [observer], w')
              | Some (Returned, w') \<Rightarrow>
                  (case notify fuel call c (i + 1) w' of
                     None \<Rightarrow> None
                   | Some (r, executed, w'') \<Rightarrow> Some (r, observer # executed, w''))))
      else Some (Returned, [], w))"

text \<open>
  \<open>write(newValue)\<close>. The result is how the call completes, the observers whose
  \<open>execute\<close> it called, and the store it leaves.
\<close>

definition write' :: "nat \<Rightarrow> 'f calls \<Rightarrow> nat \<Rightarrow> jsval \<Rightarrow> 'f world \<Rightarrow> (completion \<times> 'f observer list \<times> 'f world) option" where
  "write' fuel call c newValue w =
     (case run_parsers (parsers (signals w c)) newValue of
        Inl (Error message) \<Rightarrow> Some (Returned, [], w\<lparr>console := console w @ [ErrorLine message]\<rparr>)
      | Inr v \<Rightarrow>
          (let validationResults = map (\<lambda>validator. validator (value' (signals w c)) v) (validators (signals w c));
               errors = filter (\<lambda>result. result \<noteq> JBool True) validationResults
           in if length errors > 0
              then Some (Returned, [], w\<lparr>console := console w @ [ValidationErrors errors]\<rparr>)
              else notify fuel call c 0 (update_signal c (\<lambda>s. s\<lparr>value' := v\<rparr>) w)))"

text \<open>\<open>read()\<close>: the value, and the store after the observer on top of the stack was added.\<close>

definition read :: "nat \<Rightarrow> 'f world \<Rightarrow> jsval \<times> 'f world" where
  "read c w =
     (case top_context (signals w c) of
        None \<Rightarrow> (value' (signals w c), w)
      | Some observer \<Rightarrow>
          (value' (signals w c),
           update_signal c (\<lambda>s. s\<lparr>subscriptions := Set_add observer (subscriptions s)\<rparr>) w))"

text \<open>\<open>createEffect(fn)\<close>: a new effect object, executed once; the object is returned.\<close>

definition createEffect :: "'f calls \<Rightarrow> nat \<Rightarrow> 'f \<Rightarrow> 'f world \<Rightarrow> ((js_error + 'f observer) \<times> 'f world) option" where
  "createEffect call c fn w =
     (let effect = Effect (next_oid w) c fn in
      case execute call effect (w\<lparr>next_oid := next_oid w + 1\<rparr>) of
        None \<Rightarrow> None
      | Some (Threw e, w') \<Rightarrow> Some (Inl e, w')
      | Some (Returned, w') \<Rightarrow> Some (Inr effect, w'))"

text \<open>
  \<open>subscribe(fn)\<close>: a new object whose \<open>execute\<close> is \<open>fn\<close> is added to the set. The
  function returned is \<open>unsubscribe c effect\<close>; its result is that of \<open>delete\<close>.
\<close>

definition subscribe :: "nat \<Rightarrow> 'f \<Rightarrow> 'f world \<Rightarrow> 'f observer \<times> 'f world" where
  "subscribe c fn w =
     (let effect = Subscription (next_oid w) fn in
      (effect,
       update_signal c (\<lambda>s. s\<lparr>subscriptions := Set_add effect (subscriptions s)\<rparr>)
         (w\<lparr>next_oid := next_oid w + 1\<rparr>)))"

definition unsubscribe :: "nat \<Rightarrow> 'f observer \<Rightarrow> 'f world \<Rightarrow> bool \<times> 'f world" where
  "unsubscribe c effect w =
     (fst (Set_delete effect (subscriptions (signals w c))),
      update_signal c (\<lambda>s. s\<lparr>subscriptions := snd (Set_delete effect (subscriptions s))\<rparr>) w)"

section \<open>Callbacks and stores used as concrete inputs\<close>

text \<open>
  An example parser, in the shape the constructor documents (it returns the parsed value
  or throws an error):
  \<open>(input) => { if (input === "yes") return true; if (input === "no") return false;
  throw new Error("Invalid answer"); }\<close>
\<close>

definition yesNoParser :: "jsval \<Rightarrow> js_error + jsval" where
  "yesNoParser input =
     (if input = JStr ''yes'' then Inr (JBool True)
      else if input = JStr ''no'' then Inr (JBool False)
      else Inl (Error ''Invalid answer''))"

text \<open>
  Example validators, in the shape the constructor documents: \<open>true\<close> or a message;
  and a validator that answers with a given value, whatever the states are.
\<close>

definition yesValidator :: "jsval \<Rightarrow> jsval \<Rightarrow> jsval" where
  "yesValidator oldState newState =
     (if newState = JBool True then JBool True else JStr ''must be yes'')"

definition changedValidator :: "jsval \<Rightarrow> jsval \<Rightarrow> jsval" where
  "changedValidator oldState newState =
     (if newState = oldState then JStr ''unchanged'' else JBool True)"

definition constantValidator :: "jsval \<Rightarrow> jsval \<Rightarrow> jsval \<Rightarrow> jsval" where
  "constantValidator verdict oldState newState = verdict"

text \<open>
  Example callbacks: \<open>() => { counter++ }\<close>, \<open>() => { s.read(); counter++ }\<close> and
  \<open>() => { s.read() }\<close> for the signal \<open>s\<close> at the given reference,
  \<open>() => { throw new Error("boom") }\<close>, and
  \<open>() => { try { s.createEffect(boom) } catch (e) { } }\<close> with \<open>boom\<close> the throwing
  callback: it returns with the store that \<open>createEffect\<close> left when it threw (see
  \<open>catch_boom_store\<close> below). The counter is a number in the stores below.
\<close>

datatype example_fn = Count | ReadCount nat | ReadOnly nat | Boom | CatchBoom nat

definition increment :: "'f world \<Rightarrow> 'f world" where
  "increment w =
     w\<lparr>globals := (globals w)(''counter'' :=
        (case globals w ''counter'' of JNum n \<Rightarrow> JNum (n + 1) | v \<Rightarrow> v))\<rparr>"

fun example_call :: "example_fn calls" where
  "example_call Count w = Some (Returned, increment w)"
| "example_call (ReadCount c) w = Some (Returned, increment (snd (read c w)))"
| "example_call (ReadOnly c) w = Some (Returned, snd (read c w))"
| "example_call Boom w = Some (Threw (Error ''boom''), w)"
| "example_call (CatchBoom c) w =
     Some (Returned, push_context c (Effect (next_oid w) c Boom) (w\<lparr>next_oid := next_oid w + 1\<rparr>))"

text \<open>
  A store in which every reference holds \<open>new Signal(10)\<close>, and the same store with
  \<open>new Signal(false, [yesValidator, changedValidator], [yesNoParser])\<close> at reference 0.
\<close>

definition example_world :: "example_fn world" where
  "example_world =
     \<lparr>signals = (\<lambda>c. Signal (JNum 10) [] []), next_oid = 0, console = [],
      globals = (\<lambda>x. JUndefined)(''counter'' := JNum 0)\<rparr>"

definition pipeline_world :: "example_fn world" where
  "pipeline_world =
     example_world\<lparr>signals := (signals example_world)
       (0 := Signal (JBool False) [yesValidator, changedValidator] [yesNoParser])\<rparr>"

text \<open>The store that \<open>createEffect\<close> of the reading and counting callback on signal 0 leaves.\<close>

definition effect_world :: "example_fn world" where
  "effect_world =
     example_world\<lparr>signals := (signals example_world)
         (0 := (Signal (JNum 10) [] [])\<lparr>subscriptions := [Some (Effect 0 0 (ReadCount 0))]\<rparr>),
       next_oid := 1,
       globals := (globals example_world)(''counter'' := JNum 1)\<rparr>"

text \<open>
  A store whose signal 0 has three subscriptions and one deleted entry; the second
  live one throws.
\<close>

definition fanout_world :: "example_fn world" where
  "fanout_world =
     example_world\<lparr>signals := (signals example_world)
         (0 := (Signal (JNum 10) [] [])\<lparr>subscriptions :=
            [Some (Subscription 0 Count), None, Some (Subscription 2 Boom), Some (Subscription 3 Count)]\<rparr>),
       next_oid := 4\<rparr>"

text \<open>
  The store whose signal 0 has four validators: they answer the number 1, the string
  \<open>"true"\<close>, an object, and \<open>true\<close>. The first three answers are truthy.
\<close>

definition truthy_world :: "example_fn world" where
  "truthy_world =
     example_world\<lparr>signals := (signals example_world)
       (0 := Signal (JNum 10)
          [constantValidator (JNum 1), constantValidator (JStr ''true''), constantValidator (JObj 0),
           constantValidator (JBool True)] [])\<rparr>"

section \<open>The parse pipeline in the words of the specification\<close>


section \<open>A condition on the callbacks\<close>

text \<open>
  No callback removes the observer \<open>ob\<close> from the subscriptions of the signal at \<open>c\<close>
  (a callback can only do so by calling an unsubscribe function for it).
\<close>

definition keeps_subscribed :: "'f calls \<Rightarrow> nat \<Rightarrow> 'f observer \<Rightarrow> bool" where
  "keeps_subscribed call c ob =
     (\<forall>fn w r w'. call fn w = Some (r, w') \<and> Some ob \<in> set (subscriptions (signals w c))
        \<longrightarrow> Some ob \<in> set (subscriptions (signals w' c)))"

section \<open>Executing a list of observers in turn\<close>

text \<open>
  What the store becomes when the observers of a list are executed one after the other
  and each of them returns: for an effect the body of its \<open>execute\<close> (push, \<open>fn()\<close>,
  pop), for a subscription \<open>fn()\<close>, written with the callbacks themselves. The result
  is \<open>None\<close> when a callback throws or does not return. The notification loop of
  \<open>write\<close> is compared with it below: over a set that the observers leave alone, the
  loop leaves the store that executing the elements of the set in turn leaves.
\<close>

fun called_in_turn :: "'f calls \<Rightarrow> 'f observer list \<Rightarrow> 'f world \<Rightarrow> 'f world option" where
  "called_in_turn call [] w = Some w"
| "called_in_turn call (Subscription n fn # obs) w =
     (case call fn w of
        Some (Returned, w') \<Rightarrow> called_in_turn call obs w'
      | _ \<Rightarrow> None)"
| "called_in_turn call (Effect n c fn # obs) w =
     (case call fn (push_context c (Effect n c fn) w) of
        Some (Returned, w') \<Rightarrow> called_in_turn call obs (pop_context c w')
      | _ \<Rightarrow> None)"

section \<open>Callbacks that write and unsubscribe during a notification\<close>

text \<open>
  Example callbacks that act on the signal \<open>s\<close> at the given reference while it
  notifies. \<open>Tally\<close> is \<open>() => { counter++ }\<close>; \<open>Fail\<close> is
  \<open>() => { throw new Error("boom") }\<close>; \<open>UnsubscribeTally c n\<close> is
  \<open>() => { unsubscribe() }\<close>, with \<open>unsubscribe\<close> the function that \<open>s.subscribe\<close>
  returned for the subscription \<open>n\<close> of \<open>Tally\<close>; \<open>TryWriteOnce c v\<close> is
  \<open>() => { if (done !== true) { done = true; try { s.write(v) } catch (e) { } } }\<close>.

  The write inside \<open>TryWriteOnce\<close> notifies the observers again, among them the one
  that is writing. By then the variable \<open>done\<close> is \<open>true\<close> and no callback sets it
  back, so every \<open>TryWriteOnce\<close> that the inner write calls returns at once:
  \<open>settled_call\<close> is the behaviour of the callbacks once \<open>done\<close> is \<open>true\<close>, and
  \<open>meddling_call\<close>, their behaviour in general, runs the inner write with it. That
  the inner write is the \<open>write\<close> of \<open>meddling_call\<close> itself, and that it returns
  within the bound given to it, is shown below (\<open>try_write_once_calls_write\<close>,
  \<open>nested_write_returns\<close>).
\<close>

datatype meddling_fn = Tally | Fail | UnsubscribeTally nat nat | TryWriteOnce nat jsval

fun settled_call :: "meddling_fn calls" where
  "settled_call Tally w = Some (Returned, increment w)"
| "settled_call Fail w = Some (Threw (Error ''boom''), w)"
| "settled_call (UnsubscribeTally c n) w = Some (Returned, snd (unsubscribe c (Subscription n Tally) w))"
| "settled_call (TryWriteOnce c v) w = Some (Returned, w)"

fun meddling_call :: "meddling_fn calls" where
  "meddling_call (TryWriteOnce c v) w =
     (if globals w ''done'' = JBool True then Some (Returned, w)
      else (case write' (Suc (length (subscriptions (signals w c)))) settled_call c v
                   (w\<lparr>globals := (globals w)(''done'' := JBool True)\<rparr>) of
              None \<Rightarrow> None
            | Some (r, executed, w') \<Rightarrow> Some (Returned, w')))"
| "meddling_call Tally w = settled_call Tally w"
| "meddling_call Fail w = settled_call Fail w"
| "meddling_call (UnsubscribeTally c n) w = settled_call (UnsubscribeTally c n) w"

text \<open>
  A store whose signal 0 is \<open>new Signal(10)\<close> with the given entries in its set of
  subscriptions; the counter is 0 and \<open>done\<close> is \<open>false\<close>. Four such stores follow:
  the subscriptions are the writing callback alone; the writing callback and then the
  throwing one; the throwing one and then the counting one; the unsubscribing one and
  then the counting one that it unsubscribes.
\<close>

definition meddling_world :: "meddling_fn observer option list \<Rightarrow> meddling_fn world" where
  "meddling_world subs =
     \<lparr>signals = (\<lambda>c. Signal (JNum 10) [] [])(0 := (Signal (JNum 10) [] [])\<lparr>subscriptions := subs\<rparr>),
      next_oid = 2, console = [],
      globals = (\<lambda>x. JUndefined)(''counter'' := JNum 0, ''done'' := JBool False)\<rparr>"



definition failing_first_world :: "meddling_fn world" where
  "failing_first_world = meddling_world [Some (Subscription 0 Fail), Some (Subscription 1 Tally)]"

definition unsubscribing_world :: "meddling_fn world" where
  "unsubscribing_world =
     meddling_world [Some (Subscription 0 (UnsubscribeTally 0 1)), Some (Subscription 1 Tally)]"

section \<open>Facts about the set and the store\<close>

lemma Set_values_append: "Set_values (xs @ ys) = Set_values xs @ Set_values ys"
  by (induction xs rule: Set_values.induct) simp_all

lemma set_Set_values: "set (Set_values es) = {x. Some x \<in> set es}"
  by (induction es rule: Set_values.induct) auto

lemma Set_values_drop_None:
  "i < length es \<Longrightarrow> es ! i = None \<Longrightarrow> Set_values (drop i es) = Set_values (drop (Suc i) es)"
  by (simp add: Cons_nth_drop_Suc [symmetric])

lemma Set_values_drop_Some:
  "i < length es \<Longrightarrow> es ! i = Some x \<Longrightarrow> Set_values (drop i es) = x # Set_values (drop (Suc i) es)"
  by (simp add: Cons_nth_drop_Suc [symmetric])

lemma Set_values_Set_add:
  "Set_values (Set_add x es) = (if Some x \<in> set es then Set_values es else Set_values es @ [x])"
  by (simp add: Set_add_def Set_values_append)

lemma Set_add_idem: "Set_add x (Set_add x es) = Set_add x es"
  by (simp add: Set_add_def)

lemma Set_add_member: "Some x \<in> set (Set_add x es)"
  by (simp add: Set_add_def)

lemma Set_add_keeps: "e \<in> set es \<Longrightarrow> e \<in> set (Set_add x es)"
  by (simp add: Set_add_def)

lemma fst_Set_delete: "fst (Set_delete x es) = (Some x \<in> set es)"
  by (induction es) auto

lemma Set_values_Set_delete: "Set_values (snd (Set_delete x es)) = remove1 x (Set_values es)"
proof (induction es)
  case Nil
  then show ?case by simp
next
  case (Cons e es)
  then show ?case by (cases e) auto
qed

lemma Set_delete_absent: "Some x \<notin> set es \<Longrightarrow> Set_delete x es = (False, es)"
  by (induction es) auto

lemma Set_delete_removes:
  "distinct (Set_values es) \<Longrightarrow> Some x \<notin> set (snd (Set_delete x es))"
proof (induction es)
  case Nil
  then show ?case by simp
next
  case (Cons e es)
  then show ?case by (cases e) (auto simp: set_Set_values)
qed

lemma Set_delete_keeps: "e \<in> set es \<Longrightarrow> e \<noteq> Some x \<Longrightarrow> e \<in> set (snd (Set_delete x es))"
  by (induction es) auto

lemma signals_update_signal:
  "signals (update_signal c f w) c' = (if c' = c then f (signals w c) else signals w c')"
  by (simp add: update_signal_def)

lemma update_signal_twice:
  "update_signal c f (update_signal c g w) = update_signal c (\<lambda>s. f (g s)) w"
  by (simp add: update_signal_def)

lemma update_signal_id: "f (signals w c) = signals w c \<Longrightarrow> update_signal c f w = w"
  by (simp add: update_signal_def)

lemma context_push:
  "context' (signals (push_context c ob w) c') =
     (if c' = c then context' (signals w c) @ [ob] else context' (signals w c'))"
  by (simp add: push_context_def update_signal_def)

lemma top_context_push: "top_context (signals (push_context c ob w) c) = Some ob"
  by (simp add: top_context_def context_push)

lemma read_value: "fst (read c w) = value' (signals w c)"
  by (simp add: read_def split: option.split)

lemma read_twice: "read c (snd (read c w)) = read c w"
proof (cases "top_context (signals w c)")
  case None
  then show ?thesis by (simp add: read_def)
next
  case (Some ob)
  let ?w1 = "update_signal c (\<lambda>s. s\<lparr>subscriptions := Set_add ob (subscriptions s)\<rparr>) w"
  have top: "top_context (signals ?w1 c) = Some ob"
    using Some by (simp add: top_context_def signals_update_signal split: if_splits)
  have "update_signal c (\<lambda>s. s\<lparr>subscriptions := Set_add ob (subscriptions s)\<rparr>) ?w1 = ?w1"
    by (simp add: update_signal_twice Set_add_idem)
  then show ?thesis using Some top by (simp add: read_def signals_update_signal)
qed

lemma reads_many: "((\<lambda>w. snd (read c w)) ^^ Suc n) w = snd (read c w)"
proof (induction n)
  case 0
  then show ?case by simp
next
  case (Suc n)
  have "((\<lambda>w. snd (read c w)) ^^ Suc (Suc n)) w = snd (read c (((\<lambda>w. snd (read c w)) ^^ Suc n) w))"
    by simp
  also have "\<dots> = snd (read c (snd (read c w)))" using Suc by simp
  also have "\<dots> = snd (read c w)" by (simp add: read_twice)
  finally show ?case .
qed

lemma read_empty_context: "context' (signals w c) = [] \<Longrightarrow> read c w = (value' (signals w c), w)"
  by (simp add: read_def top_context_def)

lemma read_subscriptions:
  "subscriptions (signals (snd (read c w)) c') =
     (if c' = c \<and> context' (signals w c) \<noteq> []
      then Set_add (last (context' (signals w c))) (subscriptions (signals w c))
      else subscriptions (signals w c'))"
  by (simp add: read_def top_context_def signals_update_signal)

lemma read_keeps_value: "value' (signals (snd (read c w)) c') = value' (signals w c')"
  by (simp add: read_def top_context_def signals_update_signal split: option.split)

lemma read_keeps_context: "context' (signals (snd (read c w)) c') = context' (signals w c')"
  by (simp add: read_def top_context_def signals_update_signal split: option.split)

lemma context_pop:
  "context' (signals (pop_context c w) c') =
     (if c' = c then butlast (context' (signals w c)) else context' (signals w c'))"
  by (simp add: pop_context_def update_signal_def)

lemma subscriptions_push: "subscriptions (signals (push_context c ob w) c') = subscriptions (signals w c')"
  by (simp add: push_context_def update_signal_def)

lemma subscriptions_pop: "subscriptions (signals (pop_context c w) c') = subscriptions (signals w c')"
  by (simp add: pop_context_def update_signal_def)

lemma catch_boom_store:
  "createEffect example_call c Boom w = Some (Inl (Error ''boom''), w') \<longleftrightarrow>
   example_call (CatchBoom c) w = Some (Returned, w')"
  by (auto simp add: createEffect_def)

text \<open>
  A function that returns normally can leave the stack longer than it found it: the
  effect created inside threw, so its frame was never popped, and the pop of the outer
  effect removes that frame instead of its own.
\<close>

lemma nested_throw_unbalances_stack:
  "createEffect example_call 0 (CatchBoom 0) example_world
     = Some (Inr (Effect 0 0 (CatchBoom 0)),
         pop_context 0 (push_context 0 (Effect 1 0 Boom)
           ((push_context 0 (Effect 0 0 (CatchBoom 0)) (example_world\<lparr>next_oid := 1\<rparr>))\<lparr>next_oid := 2\<rparr>)))
   \<and> context' (signals (pop_context 0 (push_context 0 (Effect 1 0 Boom)
           ((push_context 0 (Effect 0 0 (CatchBoom 0)) (example_world\<lparr>next_oid := 1\<rparr>))\<lparr>next_oid := 2\<rparr>))) 0)
     = [Effect 0 0 (CatchBoom 0)]
   \<and> context' (signals example_world 0) = []"
  by (simp add: createEffect_def Let_def context_pop context_push push_context_def update_signal_def
      example_world_def Signal_def numeral_2_eq_2)

lemma createEffect_example:
  "createEffect example_call 0 (ReadCount 0) example_world = Some (Inr (Effect 0 0 (ReadCount 0)), effect_world)"
  by (simp add: createEffect_def push_context_def pop_context_def update_signal_def example_world_def
      effect_world_def Signal_def read_def top_context_def increment_def Set_add_def Let_def)

section \<open>Facts about the notification loop and \<open>write\<close>\<close>

text \<open>
  The loop under an invariant \<open>I\<close> of the store that fixes the entries of the set:
  when every observer in the set returns from any store that satisfies \<open>I\<close> and
  re-establishes \<open>I\<close>, the loop executes the live entries in order and returns.
\<close>

lemma notify_all:
  assumes inv: "\<And>w. I w \<Longrightarrow> subscriptions (signals w c) = subs"
    and step: "\<And>ob w. I w \<Longrightarrow> Some ob \<in> set subs \<Longrightarrow> \<exists>w'. execute call ob w = Some (Returned, w') \<and> I w'"
  shows "I w \<Longrightarrow> length subs - i < fuel \<Longrightarrow>
    \<exists>w'. notify fuel call c i w = Some (Returned, Set_values (drop i subs), w') \<and> I w'"
proof (induction fuel arbitrary: i w)
  case 0
  then show ?case by simp
next
  case (Suc fuel)
  have subs: "subscriptions (signals w c) = subs" using inv Suc.prems(1) by simp
  show ?case
  proof (cases "i < length subs")
    case False
    then show ?thesis using subs Suc.prems(1) by simp
  next
    case True
    then have fuel: "length subs - Suc i < fuel" using Suc.prems(2) by arith
    show ?thesis
    proof (cases "subs ! i")
      case None
      from Suc.IH [OF Suc.prems(1) fuel] obtain w' where
        "notify fuel call c (Suc i) w = Some (Returned, Set_values (drop (Suc i) subs), w')" "I w'"
        by blast
      then show ?thesis using True None subs by (simp add: Set_values_drop_None)
    next
      case (Some ob)
      then have "Some ob \<in> set subs" using True by (metis nth_mem)
      from step [OF Suc.prems(1) this] obtain w1 where
        ex: "execute call ob w = Some (Returned, w1)" and I1: "I w1" by blast
      from Suc.IH [OF I1 fuel] obtain w' where
        "notify fuel call c (Suc i) w1 = Some (Returned, Set_values (drop (Suc i) subs), w')" "I w'"
        by blast
      then show ?thesis using True Some subs ex by (simp add: Set_values_drop_Some)
    qed
  qed
qed

text \<open>
  The bound on the number of steps only cuts runs short: a result reached within some
  bound is the result within every larger one.
\<close>

lemma notify_more_fuel:
  "notify fuel call c i w = Some r \<Longrightarrow> notify (fuel + k) call c i w = Some r"
proof (induction fuel arbitrary: i w r)
  case 0
  then show ?case by simp
next
  case (Suc fuel)
  show ?case
  proof (cases "i < length (subscriptions (signals w c))")
    case False
    then show ?thesis using Suc.prems by simp
  next
    case True
    show ?thesis
    proof (cases "subscriptions (signals w c) ! i")
      case None
      then show ?thesis using Suc.IH [of "i + 1" w r] Suc.prems True by simp
    next
      case entry: (Some observer)
      show ?thesis
      proof (cases "execute call observer w")
        case None
        then show ?thesis using Suc.prems True entry by simp
      next
        case (Some res)
        obtain r1 w1 where res: "res = (r1, w1)" by (cases res)
        show ?thesis
        proof (cases r1)
          case (Threw e)
          then show ?thesis using Suc.prems True entry Some res by simp
        next
          case Returned
          then obtain r2 where n: "notify fuel call c (i + 1) w1 = Some r2"
            using Suc.prems True entry Some res by (cases "notify fuel call c (i + 1) w1") auto
          have "notify (fuel + k) call c (i + 1) w1 = Some r2" using Suc.IH [OF n] .
          then show ?thesis using Suc.prems True entry Some res Returned n by simp
        qed
      qed
    qed
  qed
qed

lemma write_parse_failure:
  "run_parsers (parsers (signals w c)) raw = Inl (Error m) \<Longrightarrow>
   write' fuel call c raw w = Some (Returned, [], w\<lparr>console := console w @ [ErrorLine m]\<rparr>)"
  by (simp add: write'_def)

lemma write_validation_failure:
  "run_parsers (parsers (signals w c)) raw = Inr v \<Longrightarrow>
   \<exists>validator\<in>set (validators (signals w c)). validator (value' (signals w c)) v \<noteq> JBool True \<Longrightarrow>
   write' fuel call c raw w =
     Some (Returned, [], w\<lparr>console := console w @
       [ValidationErrors (filter (\<lambda>result. result \<noteq> JBool True)
          (map (\<lambda>validator. validator (value' (signals w c)) v) (validators (signals w c))))]\<rparr>)"
  by (auto simp add: write'_def Let_def filter_empty_conv)

lemma write_accept:
  "run_parsers (parsers (signals w c)) raw = Inr v \<Longrightarrow>
   \<forall>validator\<in>set (validators (signals w c)). validator (value' (signals w c)) v = JBool True \<Longrightarrow>
   write' fuel call c raw w = notify fuel call c 0 (update_signal c (\<lambda>s. s\<lparr>value' := v\<rparr>) w)"
  by (simp add: write'_def Let_def filter_empty_conv)

lemma write_more_fuel:
  "write' fuel call c raw w = Some r \<Longrightarrow> write' (fuel + k) call c raw w = Some r"
  by (auto simp add: write'_def Let_def notify_more_fuel split: sum.splits js_error.splits if_splits)

lemma write_commit_all:
  assumes parse: "run_parsers (parsers (signals w c)) raw = Inr v"
    and accept: "\<forall>validator\<in>set (validators (signals w c)). validator (value' (signals w c)) v = JBool True"
    and I0: "I (update_signal c (\<lambda>s. s\<lparr>value' := v\<rparr>) w)"
    and inv: "\<And>w'. I w' \<Longrightarrow> subscriptions (signals w' c) = subscriptions (signals w c)"
    and step: "\<And>ob w'. I w' \<Longrightarrow> Some ob \<in> set (subscriptions (signals w c)) \<Longrightarrow>
                 \<exists>w''. execute call ob w' = Some (Returned, w'') \<and> I w''"
    and fuel: "length (subscriptions (signals w c)) < fuel"
  shows "\<exists>w'. write' fuel call c raw w = Some (Returned, Set_values (subscriptions (signals w c)), w') \<and> I w'"
proof -
  have "\<exists>w'. notify fuel call c 0 (update_signal c (\<lambda>s. s\<lparr>value' := v\<rparr>) w)
          = Some (Returned, Set_values (drop 0 (subscriptions (signals w c))), w') \<and> I w'"
    using inv step I0 fuel by (intro notify_all) auto
  then show ?thesis using write_accept [OF parse accept] by simp
qed


lemma effect_step:
  "subscriptions (signals w' 0) = [Some (Effect 0 0 (ReadCount 0))] \<and> value' (signals w' 0) = JNum 5 \<Longrightarrow>
   \<exists>w''. execute example_call (Effect 0 0 (ReadCount 0)) w' = Some (Returned, w'')
      \<and> subscriptions (signals w'' 0) = [Some (Effect 0 0 (ReadCount 0))] \<and> value' (signals w'' 0) = JNum 5"
  by (simp add: subscriptions_pop subscriptions_push increment_def read_subscriptions read_keeps_value
      context_push Set_add_def pop_context_def push_context_def update_signal_def)




lemma reading_effect_step:
  assumes "Some (Effect n c (ReadCount c)) \<in> set (subscriptions (signals w' c))"
  shows "\<exists>w''. execute example_call (Effect n c (ReadCount c)) w' = Some (Returned, w'')
      \<and> signals w'' c = signals w' c"
  using assms
  by (simp add: increment_def read_def top_context_def Set_add_def pop_context_def push_context_def
      update_signal_def)

lemma update_value_same: "update_signal c (\<lambda>s. s\<lparr>value' := value' (signals w c)\<rparr>) w = w"
  by (simp add: update_signal_def)

text \<open>
  Two runs of the model: an effect that reads the signal and counts its runs is created
  (the counter is 1), and two writes of the same value 5 follow (the counter is 2, then
  3); a validator that answers 1 rejects the write.
\<close>

lemma scenario_B:
  "createEffect example_call 0 (ReadCount 0) example_world = Some (Inr (Effect 0 0 (ReadCount 0)), effect_world)
   \<and> globals effect_world ''counter'' = JNum 1
   \<and> write' 2 example_call 0 (JNum 5) effect_world
       = Some (Returned, [Effect 0 0 (ReadCount 0)],
           effect_world\<lparr>signals := (signals effect_world)(0 := (signals effect_world 0)\<lparr>value' := JNum 5\<rparr>),
             globals := (globals effect_world)(''counter'' := JNum 2)\<rparr>)
   \<and> write' 2 example_call 0 (JNum 5)
         (effect_world\<lparr>signals := (signals effect_world)(0 := (signals effect_world 0)\<lparr>value' := JNum 5\<rparr>),
             globals := (globals effect_world)(''counter'' := JNum 2)\<rparr>)
       = Some (Returned, [Effect 0 0 (ReadCount 0)],
           effect_world\<lparr>signals := (signals effect_world)(0 := (signals effect_world 0)\<lparr>value' := JNum 5\<rparr>),
             globals := (globals effect_world)(''counter'' := JNum 3)\<rparr>)"
  by (simp add: createEffect_example)
    (simp add: write'_def update_signal_def effect_world_def example_world_def Signal_def increment_def
      read_def top_context_def Set_add_def push_context_def pop_context_def numeral_2_eq_2)

lemma truthy_rejected_run:
  "write' 1 example_call 0 (JNum 5) truthy_world
     = Some (Returned, [], truthy_world\<lparr>console := [ValidationErrors [JNum 1, JStr ''true'', JObj 0]]\<rparr>)"
  by (simp add: write'_def truthy_world_def example_world_def Signal_def constantValidator_def)

section \<open>Facts about \<open>subscribe\<close>, \<open>unsubscribe\<close> and what stays subscribed\<close>

lemma subscribe_fields:
  "fst (subscribe c fn w) = Subscription (next_oid w) fn"
  "signals (snd (subscribe c fn w)) =
     (signals w)(c := (signals w c)\<lparr>subscriptions :=
        Set_add (Subscription (next_oid w) fn) (subscriptions (signals w c))\<rparr>)"
  "next_oid (snd (subscribe c fn w)) = next_oid w + 1"
  "console (snd (subscribe c fn w)) = console w"
  "globals (snd (subscribe c fn w)) = globals w"
  by (simp_all add: subscribe_def update_signal_def Let_def)

lemma unsubscribe_subscriptions:
  "subscriptions (signals (snd (unsubscribe c ob w)) c') =
     (if c' = c then snd (Set_delete ob (subscriptions (signals w c))) else subscriptions (signals w c'))"
  by (simp add: unsubscribe_def update_signal_def)

lemma unsubscribe_absent:
  assumes "Some ob \<notin> set (subscriptions (signals w c))"
  shows "unsubscribe c ob w = (False, w)"
proof -
  have "Set_delete ob (subscriptions (signals w c)) = (False, subscriptions (signals w c))"
    using assms by (rule Set_delete_absent)
  then show ?thesis by (simp add: unsubscribe_def update_signal_def)
qed

lemma unsubscribe_twice:
  assumes "distinct (Set_values (subscriptions (signals w c)))"
  shows "unsubscribe c ob (snd (unsubscribe c ob w)) = (False, snd (unsubscribe c ob w))"
proof (rule unsubscribe_absent)
  show "Some ob \<notin> set (subscriptions (signals (snd (unsubscribe c ob w)) c))"
    using assms by (simp add: unsubscribe_subscriptions Set_delete_removes)
qed

lemma fresh_not_subscribed:
  assumes "\<forall>ob\<in>set (Set_values es). oid ob < n"
  shows "Some (Subscription n fn) \<notin> set es"
proof
  assume "Some (Subscription n fn) \<in> set es"
  then have "Subscription n fn \<in> set (Set_values es)" by (simp add: set_Set_values)
  then have "oid (Subscription n fn) < n" using assms by blast
  then show False by simp
qed

text \<open>
  A run of the model: \<open>subscribe\<close> does not call the function; a write calls it; after
  the unsubscribe function was called, a write calls nobody.
\<close>

lemma scenario_C:
  "subscribe 0 Count example_world
     = (Subscription 0 Count,
        example_world\<lparr>signals := (signals example_world)
            (0 := (signals example_world 0)\<lparr>subscriptions := [Some (Subscription 0 Count)]\<rparr>),
          next_oid := 1\<rparr>)
   \<and> write' 2 example_call 0 (JNum 5) (snd (subscribe 0 Count example_world))
     = Some (Returned, [Subscription 0 Count],
         example_world\<lparr>signals := (signals example_world)
            (0 := (signals example_world 0)\<lparr>value' := JNum 5, subscriptions := [Some (Subscription 0 Count)]\<rparr>),
          next_oid := 1, globals := (globals example_world)(''counter'' := JNum 1)\<rparr>)
   \<and> unsubscribe 0 (Subscription 0 Count) (snd (subscribe 0 Count example_world))
     = (True,
        example_world\<lparr>signals := (signals example_world)
            (0 := (signals example_world 0)\<lparr>subscriptions := [None]\<rparr>),
          next_oid := 1\<rparr>)
   \<and> write' 2 example_call 0 (JNum 5)
        (snd (unsubscribe 0 (Subscription 0 Count) (snd (subscribe 0 Count example_world))))
     = Some (Returned, [],
         example_world\<lparr>signals := (signals example_world)
            (0 := (signals example_world 0)\<lparr>value' := JNum 5, subscriptions := [None]\<rparr>),
          next_oid := 1\<rparr>)"
  by (simp add: subscribe_def unsubscribe_def write'_def update_signal_def example_world_def Signal_def
      increment_def Set_add_def numeral_2_eq_2 Let_def)

lemma read_keeps_subscribed:
  "e \<in> set (subscriptions (signals w c)) \<Longrightarrow> e \<in> set (subscriptions (signals (snd (read c2 w)) c))"
  by (auto simp add: read_subscriptions Set_add_keeps)

lemma subscribe_keeps_subscribed:
  "e \<in> set (subscriptions (signals w c)) \<Longrightarrow> e \<in> set (subscriptions (signals (snd (subscribe c2 fn w)) c))"
  by (auto simp add: subscribe_fields Set_add_keeps)

lemma unsubscribe_keeps_subscribed:
  "Some ob \<in> set (subscriptions (signals w c)) \<Longrightarrow> c2 \<noteq> c \<or> ob2 \<noteq> ob \<Longrightarrow>
   Some ob \<in> set (subscriptions (signals (snd (unsubscribe c2 ob2 w)) c))"
  by (auto simp add: unsubscribe_subscriptions Set_delete_keeps)

lemma execute_keeps_subscribed:
  assumes keeps: "keeps_subscribed call c ob"
    and ex: "execute call ob' w = Some (r, w')"
    and mem: "Some ob \<in> set (subscriptions (signals w c))"
  shows "Some ob \<in> set (subscriptions (signals w' c))"
proof (cases ob')
  case (Effect n c' fn)
  have mem': "Some ob \<in> set (subscriptions (signals (push_context c' (Effect n c' fn) w) c))"
    using mem by (simp add: subscriptions_push)
  obtain r0 w0 where call: "call fn (push_context c' (Effect n c' fn) w) = Some (r0, w0)"
    using ex Effect by (cases "call fn (push_context c' (Effect n c' fn) w)") auto
  have "Some ob \<in> set (subscriptions (signals w0 c))"
    using keeps call mem' unfolding keeps_subscribed_def by blast
  then show ?thesis
    using ex Effect call by (cases r0) (auto simp add: subscriptions_pop)
next
  case (Subscription n fn)
  then show ?thesis using keeps ex mem unfolding keeps_subscribed_def by auto
qed

lemma notify_keeps_subscribed:
  assumes keeps: "keeps_subscribed call c ob"
  shows "notify fuel call c2 i w = Some (r, ex, w') \<Longrightarrow> Some ob \<in> set (subscriptions (signals w c)) \<Longrightarrow>
    Some ob \<in> set (subscriptions (signals w' c))"
proof (induction fuel arbitrary: i w r ex w')
  case 0
  then show ?case by simp
next
  case (Suc fuel)
  show ?case
  proof (cases "i < length (subscriptions (signals w c2))")
    case False
    then show ?thesis using Suc.prems by simp
  next
    case True
    show ?thesis
    proof (cases "subscriptions (signals w c2) ! i")
      case None
      then have "notify fuel call c2 (i + 1) w = Some (r, ex, w')" using Suc.prems(1) True by simp
      then show ?thesis using Suc.IH Suc.prems(2) by blast
    next
      case (Some observer)
      show ?thesis
      proof (cases "execute call observer w")
        case None
        then show ?thesis using Suc.prems(1) True Some by simp
      next
        case (Some res)
        obtain r1 w1 where res: "res = (r1, w1)" by (cases res)
        have mem1: "Some ob \<in> set (subscriptions (signals w1 c))"
          using execute_keeps_subscribed [OF keeps] Some res Suc.prems(2) by blast
        show ?thesis
        proof (cases r1)
          case Returned
          then obtain r2 ex2 w2 where n: "notify fuel call c2 (i + 1) w1 = Some (r2, ex2, w2)" and "w' = w2"
            using Suc.prems(1) True \<open>subscriptions (signals w c2) ! i = Some observer\<close> Some res
            by (cases "notify fuel call c2 (i + 1) w1") auto
          then show ?thesis using Suc.IH mem1 by blast
        next
          case (Threw e)
          then have "w' = w1"
            using Suc.prems(1) True \<open>subscriptions (signals w c2) ! i = Some observer\<close> Some res by simp
          then show ?thesis using mem1 by simp
        qed
      qed
    qed
  qed
qed

lemma write_keeps_subscribed:
  assumes keeps: "keeps_subscribed call c ob"
    and wr: "write' fuel call c2 raw w = Some (r, ex, w')"
    and mem: "Some ob \<in> set (subscriptions (signals w c))"
  shows "Some ob \<in> set (subscriptions (signals w' c))"
proof (cases "run_parsers (parsers (signals w c2)) raw")
  case (Inl e)
  then show ?thesis using wr mem by (cases e) (auto simp add: write'_def)
next
  case (Inr v)
  show ?thesis
  proof (cases "\<forall>validator\<in>set (validators (signals w c2)). validator (value' (signals w c2)) v = JBool True")
    case False
    then show ?thesis using write_validation_failure [OF Inr, of fuel call] wr mem by auto
  next
    case True
    have mem': "Some ob \<in> set (subscriptions (signals (update_signal c2 (\<lambda>s. s\<lparr>value' := v\<rparr>) w) c))"
      using mem by (auto simp add: signals_update_signal)
    have "notify fuel call c2 0 (update_signal c2 (\<lambda>s. s\<lparr>value' := v\<rparr>) w) = Some (r, ex, w')"
      using write_accept [OF Inr True, of fuel call] wr by simp
    then show ?thesis
      using mem' by (rule notify_keeps_subscribed [OF keeps])
  qed
qed

lemma createEffect_keeps_subscribed:
  assumes keeps: "keeps_subscribed call c ob"
    and cr: "createEffect call c2 fn w = Some (r, w')"
    and mem: "Some ob \<in> set (subscriptions (signals w c))"
  shows "Some ob \<in> set (subscriptions (signals w' c))"
proof -
  let ?eff = "Effect (next_oid w) c2 fn"
  have mem': "Some ob \<in> set (subscriptions (signals (w\<lparr>next_oid := next_oid w + 1\<rparr>) c))"
    using mem by simp
  obtain r0 where "execute call ?eff (w\<lparr>next_oid := next_oid w + 1\<rparr>) = Some (r0, w')"
    using cr by (auto simp add: createEffect_def Let_def split: option.splits completion.splits)
  then show ?thesis using execute_keeps_subscribed [OF keeps _ mem'] by blast
qed

lemma example_call_keeps_subscribed: "keeps_subscribed example_call c ob"
  unfolding keeps_subscribed_def
proof (intro allI impI)
  fix fn :: example_fn and w r w'
  assume h: "example_call fn w = Some (r, w') \<and> Some ob \<in> set (subscriptions (signals w c))"
  then show "Some ob \<in> set (subscriptions (signals w' c))"
    by (cases fn) (auto simp add: increment_def read_keeps_subscribed subscriptions_push)
qed

section \<open>Facts about observers executed in turn\<close>

text \<open>
  An observer that \<open>execute\<close> runs to its return is the head of the list executed in
  turn. Under an invariant of the store that fixes the entries of the set, the store that
  the loop leaves is the one that executing the live entries in turn leaves; and when
  the observer at entry \<open>k\<close> throws, the loop ends there, having executed the live
  entries before it in turn.
\<close>

lemma execute_called:
  "execute call ob w = Some (Returned, w') \<Longrightarrow>
   called_in_turn call (ob # obs) w = called_in_turn call obs w'"
  by (cases ob) (auto split: option.splits completion.splits)

lemma notify_all_called:
  assumes inv: "\<And>w. I w \<Longrightarrow> subscriptions (signals w c) = subs"
    and step: "\<And>ob w. I w \<Longrightarrow> Some ob \<in> set subs \<Longrightarrow> \<exists>w'. execute call ob w = Some (Returned, w') \<and> I w'"
  shows "I w \<Longrightarrow> length subs - i < fuel \<Longrightarrow>
    \<exists>w'. notify fuel call c i w = Some (Returned, Set_values (drop i subs), w') \<and> I w'
      \<and> called_in_turn call (Set_values (drop i subs)) w = Some w'"
proof (induction fuel arbitrary: i w)
  case 0
  then show ?case by simp
next
  case (Suc fuel)
  have subs: "subscriptions (signals w c) = subs" using inv Suc.prems(1) by simp
  show ?case
  proof (cases "i < length subs")
    case False
    then show ?thesis using subs Suc.prems(1) by simp
  next
    case True
    then have fuel: "length subs - Suc i < fuel" using Suc.prems(2) by arith
    show ?thesis
    proof (cases "subs ! i")
      case None
      from Suc.IH [OF Suc.prems(1) fuel] obtain w' where
        "notify fuel call c (Suc i) w = Some (Returned, Set_values (drop (Suc i) subs), w')" "I w'"
        "called_in_turn call (Set_values (drop (Suc i) subs)) w = Some w'"
        by blast
      then show ?thesis using True None subs by (simp add: Set_values_drop_None)
    next
      case (Some ob)
      then have "Some ob \<in> set subs" using True by (metis nth_mem)
      from step [OF Suc.prems(1) this] obtain w1 where
        ex: "execute call ob w = Some (Returned, w1)" and I1: "I w1" by blast
      from Suc.IH [OF I1 fuel] obtain w' where
        "notify fuel call c (Suc i) w1 = Some (Returned, Set_values (drop (Suc i) subs), w')" "I w'"
        "called_in_turn call (Set_values (drop (Suc i) subs)) w1 = Some w'"
        by blast
      then show ?thesis
        using True Some subs ex execute_called [OF ex]
        by (simp add: Set_values_drop_Some)
    qed
  qed
qed

lemma write_commit_all_called:
  assumes parse: "run_parsers (parsers (signals w c)) raw = Inr v"
    and accept: "\<forall>validator\<in>set (validators (signals w c)). validator (value' (signals w c)) v = JBool True"
    and I0: "I (update_signal c (\<lambda>s. s\<lparr>value' := v\<rparr>) w)"
    and inv: "\<And>w'. I w' \<Longrightarrow> subscriptions (signals w' c) = subscriptions (signals w c)"
    and step: "\<And>ob w'. I w' \<Longrightarrow> Some ob \<in> set (subscriptions (signals w c)) \<Longrightarrow>
                 \<exists>w''. execute call ob w' = Some (Returned, w'') \<and> I w''"
    and fuel: "length (subscriptions (signals w c)) < fuel"
  shows "\<exists>w'. write' fuel call c raw w = Some (Returned, Set_values (subscriptions (signals w c)), w') \<and> I w'
    \<and> called_in_turn call (Set_values (subscriptions (signals w c)))
          (update_signal c (\<lambda>s. s\<lparr>value' := v\<rparr>) w) = Some w'"
proof -
  have "\<exists>w'. notify fuel call c 0 (update_signal c (\<lambda>s. s\<lparr>value' := v\<rparr>) w)
          = Some (Returned, Set_values (drop 0 (subscriptions (signals w c))), w') \<and> I w'
        \<and> called_in_turn call (Set_values (drop 0 (subscriptions (signals w c))))
              (update_signal c (\<lambda>s. s\<lparr>value' := v\<rparr>) w) = Some w'"
  proof (rule notify_all_called [where I = I])
    show "\<And>w'. I w' \<Longrightarrow> subscriptions (signals w' c) = subscriptions (signals w c)" by (rule inv)
    show "\<And>ob w'. I w' \<Longrightarrow> Some ob \<in> set (subscriptions (signals w c)) \<Longrightarrow>
        \<exists>w''. execute call ob w' = Some (Returned, w'') \<and> I w''" by (rule step)
    show "I (update_signal c (\<lambda>s. s\<lparr>value' := v\<rparr>) w)" by (rule I0)
    show "length (subscriptions (signals w c)) - 0 < fuel" using fuel by simp
  qed
  then show ?thesis using write_accept [OF parse accept] by simp
qed


text \<open>
  The callbacks' variables are not touched by the stack operations, by an update of a
  signal or by \<open>read\<close>; so one run of the reading and counting effect adds one to the
  counter.
\<close>

lemma globals_frames:
  "globals (push_context c ob w) = globals w"
  "globals (pop_context c w) = globals w"
  "globals (update_signal c f w) = globals w"
  "globals (snd (read c w)) = globals w"
  by (simp_all add: push_context_def pop_context_def update_signal_def read_def split: option.split)

lemma called_reading_effect:
  "called_in_turn example_call [Effect n c (ReadCount c)] w =
     Some (pop_context c (increment (snd (read c (push_context c (Effect n c (ReadCount c)) w)))))"
  by simp

lemma counter_after_reading_effect:
  assumes "called_in_turn example_call [Effect n c (ReadCount c)] w = Some w'"
    and "globals w ''counter'' = JNum k"
  shows "globals w' ''counter'' = JNum (k + 1)"
proof -
  have "w' = pop_context c (increment (snd (read c (push_context c (Effect n c (ReadCount c)) w))))"
    using assms(1) by (simp only: called_reading_effect option.inject)
  then show ?thesis using assms(2) by (simp add: globals_frames increment_def)
qed

section \<open>Facts about the callback that writes during a notification\<close>

text \<open>
  The callbacks under \<open>settled_call\<close> return or throw, and leave \<open>done\<close> and the
  number of entries of every set as they are. In a store where \<open>done\<close> is \<open>true\<close>
  the two behaviours agree, for a callback, for \<open>execute\<close>, for the loop and for
  \<open>write\<close>; hence the inner write of \<open>TryWriteOnce\<close>, which runs in such a store, is
  the \<open>write\<close> of \<open>meddling_call\<close>. The inner write returns within its bound.
\<close>

lemma length_Set_delete: "length (snd (Set_delete x es)) = length es"
  by (induction es) auto

lemma settled_call_result:
  "\<exists>r w'. settled_call fn w = Some (r, w') \<and> globals w' ''done'' = globals w ''done''
     \<and> length (subscriptions (signals w' c)) = length (subscriptions (signals w c))"
  by (cases fn) (auto simp add: increment_def unsubscribe_subscriptions length_Set_delete unsubscribe_def
      update_signal_def)

lemma execute_settled_result:
  "\<exists>r w'. execute settled_call ob w = Some (r, w') \<and> globals w' ''done'' = globals w ''done''
     \<and> length (subscriptions (signals w' c)) = length (subscriptions (signals w c))"
proof (cases ob)
  case (Effect n c' fn)
  obtain r w1 where s: "settled_call fn (push_context c' (Effect n c' fn) w) = Some (r, w1)"
    "globals w1 ''done'' = globals (push_context c' (Effect n c' fn) w) ''done''"
    "length (subscriptions (signals w1 c)) = length (subscriptions (signals (push_context c' (Effect n c' fn) w) c))"
    using settled_call_result [of fn "push_context c' (Effect n c' fn) w" c] by blast
  then show ?thesis
    using Effect
    by (cases r) (auto simp add: subscriptions_push subscriptions_pop push_context_def pop_context_def
        update_signal_def)
next
  case (Subscription n fn)
  then show ?thesis using settled_call_result [of fn w c] by simp
qed

lemma meddling_is_settled:
  "globals w ''done'' = JBool True \<Longrightarrow> meddling_call fn w = settled_call fn w"
  by (cases fn) simp_all

lemma execute_meddling_is_settled:
  "globals w ''done'' = JBool True \<Longrightarrow> execute meddling_call ob w = execute settled_call ob w"
  by (cases ob) (simp_all add: meddling_is_settled push_context_def update_signal_def)

lemma notify_meddling_is_settled:
  "globals w ''done'' = JBool True \<Longrightarrow> notify fuel meddling_call c i w = notify fuel settled_call c i w"
proof (induction fuel arbitrary: i w)
  case 0
  then show ?case by simp
next
  case (Suc fuel)
  show ?case
  proof (cases "i < length (subscriptions (signals w c))")
    case False
    then show ?thesis by simp
  next
    case True
    show ?thesis
    proof (cases "subscriptions (signals w c) ! i")
      case None
      then show ?thesis using True Suc.IH [OF Suc.prems] by simp
    next
      case (Some ob)
      obtain r w1 where e: "execute settled_call ob w = Some (r, w1)"
        and d: "globals w1 ''done'' = globals w ''done''"
        using execute_settled_result [of ob w c] by blast
      have "notify fuel meddling_call c (i + 1) w1 = notify fuel settled_call c (i + 1) w1"
        using Suc.IH [of w1] d Suc.prems by simp
      then show ?thesis
        using True Some e execute_meddling_is_settled [OF Suc.prems, of ob] by (cases r) simp_all
    qed
  qed
qed

lemma write_meddling_is_settled:
  assumes "globals w ''done'' = JBool True"
  shows "write' fuel meddling_call c v w = write' fuel settled_call c v w"
proof -
  have "notify fuel meddling_call c 0 (update_signal c (\<lambda>s. s\<lparr>value' := x\<rparr>) w)
      = notify fuel settled_call c 0 (update_signal c (\<lambda>s. s\<lparr>value' := x\<rparr>) w)" for x
    using assms by (intro notify_meddling_is_settled) (simp add: update_signal_def)
  then show ?thesis
    by (auto simp add: write'_def Let_def split: sum.splits js_error.splits)
qed

lemma try_write_once_calls_write:
  "globals w ''done'' \<noteq> JBool True \<Longrightarrow>
   meddling_call (TryWriteOnce c v) w =
     (case write' (Suc (length (subscriptions (signals w c)))) meddling_call c v
             (w\<lparr>globals := (globals w)(''done'' := JBool True)\<rparr>) of
        None \<Rightarrow> None
      | Some (r, executed, w') \<Rightarrow> Some (Returned, w'))"
  by (simp add: write_meddling_is_settled)

lemma settled_notify_returns:
  "length (subscriptions (signals w c)) - i < fuel \<Longrightarrow> notify fuel settled_call c i w \<noteq> None"
proof (induction fuel arbitrary: i w)
  case 0
  then show ?case by simp
next
  case (Suc fuel)
  show ?case
  proof (cases "i < length (subscriptions (signals w c))")
    case False
    then show ?thesis by simp
  next
    case True
    then have f: "length (subscriptions (signals w c)) - (i + 1) < fuel" using Suc.prems by arith
    show ?thesis
    proof (cases "subscriptions (signals w c) ! i")
      case None
      then show ?thesis using True Suc.IH [OF f] by simp
    next
      case (Some ob)
      obtain r w1 where e: "execute settled_call ob w = Some (r, w1)"
        and l: "length (subscriptions (signals w1 c)) = length (subscriptions (signals w c))"
        using execute_settled_result [of ob w c] by blast
      have "notify fuel settled_call c (i + 1) w1 \<noteq> None"
        using Suc.IH [of w1 "i + 1"] f l by simp
      then show ?thesis using True Some e by (cases r) auto
    qed
  qed
qed

lemma nested_write_returns:
  "write' (Suc (length (subscriptions (signals w c)))) settled_call c v w \<noteq> None"
proof -
  have "notify (Suc (length (subscriptions (signals w c)))) settled_call c 0
          (update_signal c (\<lambda>s. s\<lparr>value' := x\<rparr>) w) \<noteq> None" for x
    using settled_notify_returns [of "update_signal c (\<lambda>s. s\<lparr>value' := x\<rparr>) w" c 0
        "Suc (length (subscriptions (signals w c)))"]
    by (simp add: signals_update_signal)
  then show ?thesis
    by (auto simp add: write'_def Let_def split: sum.splits js_error.splits)
qed

section \<open>The claims\<close>

subsection \<open>The context stack around an effect\<close>

text \<open>
  C1. As amended: \<open>execute\<close> of an effect pushes the effect, so that it is on top of
  the stack of its signal when \<open>fn\<close> is called, and pops after \<open>fn\<close> has returned;
  when \<open>fn\<close> returns and leaves the stack as it was handed to it, the stack after
  \<open>execute\<close> is the stack before it. (There is no handler around the call of \<open>fn\<close>:
  the counterexample below shows the frame left on the stack when \<open>fn\<close> throws.)
\<close>

theorem execute_restores_context_on_return:
  assumes "call fn (push_context c (Effect n c fn) w) = Some (Returned, w')"
    and "context' (signals w' c) = context' (signals w c) @ [Effect n c fn]"
  shows "top_context (signals (push_context c (Effect n c fn) w) c) = Some (Effect n c fn)
    \<and> execute call (Effect n c fn) w = Some (Returned, pop_context c w')
    \<and> context' (signals (pop_context c w') c) = context' (signals w c)"
  using assms by (simp add: top_context_push context_pop)

theorem execute_restores_context_witness:
  "execute example_call (Effect 0 0 (ReadCount 0)) example_world
     = Some (Returned, pop_context 0 (increment (snd (read 0 (push_context 0 (Effect 0 0 (ReadCount 0)) example_world)))))
   \<and> context' (signals (pop_context 0 (increment (snd (read 0 (push_context 0 (Effect 0 0 (ReadCount 0)) example_world))))) 0)
     = context' (signals example_world 0)"
proof -
  let ?w' = "increment (snd (read 0 (push_context 0 (Effect 0 0 (ReadCount 0)) example_world)))"
  have ret: "example_call (ReadCount 0) (push_context 0 (Effect 0 0 (ReadCount 0)) example_world) = Some (Returned, ?w')"
    by simp
  have bal: "context' (signals ?w' 0) = context' (signals example_world 0) @ [Effect 0 0 (ReadCount 0)]"
    by (simp add: increment_def read_keeps_context context_push)
  show ?thesis
    using execute_restores_context_on_return
      [where call = example_call and fn = "ReadCount 0" and c = 0 and n = 0 and w = example_world and w' = ?w']
      ret bal
    by simp
qed

text \<open>
  The claim as stated fails when \<open>fn\<close> throws: \<open>createEffect\<close> of a throwing callback
  ends with the exception, and the stack, empty before, holds the effect afterwards.
\<close>

theorem createEffect_throw_leaves_frame:
  "createEffect example_call 0 Boom example_world
     = Some (Inl (Error ''boom''), push_context 0 (Effect 0 0 Boom) (example_world\<lparr>next_oid := 1\<rparr>))
   \<and> context' (signals (push_context 0 (Effect 0 0 Boom) (example_world\<lparr>next_oid := 1\<rparr>)) 0) = [Effect 0 0 Boom]
   \<and> context' (signals example_world 0) = []"
  by (simp add: createEffect_def context_push example_world_def Signal_def)

subsection \<open>What an effect is subscribed to\<close>

text \<open>
  C2. As amended: the context stack belongs to one signal, so an effect is subscribed by
  the reads of its own signal only. While \<open>fn\<close> runs, the effect is on top of the stack
  of the signal it was created on (\<open>execute\<close> calls \<open>fn\<close> in the store after the push);
  a \<open>read\<close> of a signal subscribes the observer on top of that signal's stack; a
  \<open>read\<close> of another signal \<open>c'\<close> looks at the stack of \<open>c'\<close> alone and subscribes
  nothing when that stack is empty. An observer that is subscribed stays so through
  \<open>read\<close>, \<open>subscribe\<close>, the unsubscribe function of another observer or signal, and
  through \<open>write\<close> and \<open>createEffect\<close> when no callback removes it.
\<close>

theorem effect_subscribed_by_reads_of_its_signal:
  "top_context (signals (push_context c (Effect n c fn) w) c) = Some (Effect n c fn)
   \<and> execute call (Effect n c fn) w =
       (case call fn (push_context c (Effect n c fn) w) of
          None \<Rightarrow> None
        | Some (Threw e, w') \<Rightarrow> Some (Threw e, w')
        | Some (Returned, w') \<Rightarrow> Some (Returned, pop_context c w'))
   \<and> (top_context (signals w c) = Some ob \<longrightarrow>
        Some ob \<in> set (subscriptions (signals (snd (read c w)) c)))
   \<and> (c' \<noteq> c \<longrightarrow>
        subscriptions (signals (snd (read c' (push_context c ob w))) c') =
          (case top_context (signals w c') of
             None \<Rightarrow> subscriptions (signals w c')
           | Some ob' \<Rightarrow> Set_add ob' (subscriptions (signals w c'))))
   \<and> (Some ob \<in> set (subscriptions (signals w c)) \<longrightarrow>
        Some ob \<in> set (subscriptions (signals (snd (read d w)) c))
        \<and> Some ob \<in> set (subscriptions (signals (snd (subscribe d g w)) c))
        \<and> (d \<noteq> c \<or> ob0 \<noteq> ob \<longrightarrow>
             Some ob \<in> set (subscriptions (signals (snd (unsubscribe d ob0 w)) c)))
        \<and> (keeps_subscribed call c ob \<longrightarrow>
             (\<forall>r ex w'. write' fuel call d raw w = Some (r, ex, w') \<longrightarrow>
                Some ob \<in> set (subscriptions (signals w' c)))
             \<and> (\<forall>r w'. createEffect call d g w = Some (r, w') \<longrightarrow>
                Some ob \<in> set (subscriptions (signals w' c)))))"
proof -
  have own: "top_context (signals w c) = Some ob \<Longrightarrow>
      Some ob \<in> set (subscriptions (signals (snd (read c w)) c))"
    by (simp add: read_def signals_update_signal Set_add_member)
  have other: "c' \<noteq> c \<Longrightarrow>
      subscriptions (signals (snd (read c' (push_context c ob w))) c') =
        (case top_context (signals w c') of
           None \<Rightarrow> subscriptions (signals w c')
         | Some ob' \<Rightarrow> Set_add ob' (subscriptions (signals w c')))"
    by (simp add: read_subscriptions context_push subscriptions_push top_context_def)
  show ?thesis
    using own other read_keeps_subscribed [of "Some ob" w c d]
      subscribe_keeps_subscribed [of "Some ob" w c d g]
      unsubscribe_keeps_subscribed [of ob w c d ob0]
      write_keeps_subscribed [of call c ob fuel d raw w]
      createEffect_keeps_subscribed [of call c ob d g w]
    by (simp add: top_context_push)
qed

theorem effect_subscribed_witness:
  "Some (Effect 0 0 (ReadCount 0))
     \<in> set (subscriptions (signals (snd (read 0 (push_context 0 (Effect 0 0 (ReadCount 0)) example_world))) 0))
   \<and> subscriptions (signals (snd (read 1 (push_context 0 (Effect 0 0 (ReadCount 0)) example_world))) 1) = []
   \<and> Some (Effect 0 0 (ReadCount 0)) \<in> set (subscriptions (signals (snd (read 1 effect_world)) 0))
   \<and> Some (Effect 0 0 (ReadCount 0)) \<in> set (subscriptions (signals (snd (subscribe 0 Count effect_world)) 0))
   \<and> Some (Effect 0 0 (ReadCount 0))
       \<in> set (subscriptions (signals (snd (unsubscribe 0 (Subscription 5 Count) effect_world)) 0))
   \<and> Some (Effect 0 0 (ReadCount 0))
       \<in> set (subscriptions (signals (snd (snd (the (write' 2 example_call 0 (JNum 5) effect_world)))) 0))
   \<and> Some (Effect 0 0 (ReadCount 0))
       \<in> set (subscriptions (signals (snd (the (createEffect example_call 1 Boom effect_world))) 0))"
proof -
  let ?eff = "Effect 0 0 (ReadCount 0)"
  let ?run = "push_context 0 ?eff example_world"
  have top: "top_context (signals ?run 0) = Some ?eff" by (rule top_context_push)
  have other: "top_context (signals example_world 1) = None" "subscriptions (signals example_world 1) = []"
    by (simp_all add: top_context_def example_world_def Signal_def)
  have mem: "Some ?eff \<in> set (subscriptions (signals effect_world 0))"
    by (simp add: effect_world_def example_world_def Signal_def)
  have wr: "write' 2 example_call 0 (JNum 5) effect_world
      = Some (Returned, [?eff], snd (snd (the (write' 2 example_call 0 (JNum 5) effect_world))))"
    using scenario_B by simp
  have cr: "createEffect example_call 1 Boom effect_world
      = Some (Inl (Error ''boom''), snd (the (createEffect example_call 1 Boom effect_world)))"
    by (simp add: createEffect_def)
  have c1: "Some ?eff \<in> set (subscriptions (signals (snd (read 0 ?run)) 0))"
    using effect_subscribed_by_reads_of_its_signal [where c = 0 and w = ?run and ob = ?eff] top by blast
  have c2: "subscriptions (signals (snd (read 1 ?run)) 1) = []"
    using effect_subscribed_by_reads_of_its_signal [where c = 0 and c' = 1 and w = example_world and ob = ?eff]
      other
    by simp
  note at1 = effect_subscribed_by_reads_of_its_signal [where c = 0 and w = effect_world and ob = ?eff
      and d = 1 and g = Boom and call = example_call,
      THEN conjunct2, THEN conjunct2, THEN conjunct2, THEN conjunct2, THEN mp, OF mem]
  note at0 = effect_subscribed_by_reads_of_its_signal [where c = 0 and w = effect_world and ob = ?eff
      and d = 0 and g = Count and ob0 = "Subscription 5 Count" and call = example_call
      and fuel = 2 and raw = "JNum 5",
      THEN conjunct2, THEN conjunct2, THEN conjunct2, THEN conjunct2, THEN mp, OF mem]
  have c3: "Some ?eff \<in> set (subscriptions (signals (snd (read 1 effect_world)) 0))"
    using at1 by (rule conjunct1)
  have c4: "Some ?eff \<in> set (subscriptions (signals (snd (subscribe 0 Count effect_world)) 0))"
    using at0 [THEN conjunct2] by (rule conjunct1)
  have "(0::nat) \<noteq> 0 \<or> Subscription 5 Count \<noteq> ?eff" by simp
  then have c5: "Some ?eff \<in> set (subscriptions (signals (snd (unsubscribe 0 (Subscription 5 Count) effect_world)) 0))"
    by (rule at0 [THEN conjunct2, THEN conjunct2, THEN conjunct1, THEN mp])
  have c6: "Some ?eff \<in> set (subscriptions (signals (snd (snd (the (write' 2 example_call 0 (JNum 5) effect_world)))) 0))"
    using wr
    by (rule at0 [THEN conjunct2, THEN conjunct2, THEN conjunct2, THEN mp,
          OF example_call_keeps_subscribed, THEN conjunct1, THEN spec, THEN spec, THEN spec, THEN mp])
  have c7: "Some ?eff \<in> set (subscriptions (signals (snd (the (createEffect example_call 1 Boom effect_world))) 0))"
    using cr
    by (rule at1 [THEN conjunct2, THEN conjunct2, THEN conjunct2, THEN mp,
          OF example_call_keeps_subscribed, THEN conjunct2, THEN spec, THEN spec, THEN mp])
  show ?thesis using c1 c2 c3 c4 c5 c6 c7 by simp
qed

text \<open>
  The claim as stated fails for a signal other than the effect's own: an effect created
  on signal 0 whose function reads signal 1 is not in the subscriptions of signal 1.
\<close>

theorem effect_not_subscribed_to_other_signal:
  "createEffect example_call 0 (ReadOnly 1) example_world
     = Some (Inr (Effect 0 0 (ReadOnly 1)),
         pop_context 0 (snd (read 1 (push_context 0 (Effect 0 0 (ReadOnly 1)) (example_world\<lparr>next_oid := 1\<rparr>)))))
   \<and> subscriptions (signals
         (pop_context 0 (snd (read 1 (push_context 0 (Effect 0 0 (ReadOnly 1)) (example_world\<lparr>next_oid := 1\<rparr>))))) 1)
     = []"
  by (simp add: createEffect_def Let_def subscriptions_pop read_subscriptions subscriptions_push
      context_push example_world_def Signal_def)

subsection \<open>A write commits or rejects\<close>

text \<open>
  C3. As amended: with parsers that return a value or throw an \<open>Error\<close>, and
  validators that return their verdict (neither acting on the store, as the constructor
  documents them): when a parser throws, \<open>write\<close> returns normally, calls no observer
  and changes nothing in the store but the console, which gets the message; when the
  parsers succeed and some validator answers something other than \<open>true\<close>, the same
  holds, with the rejections on the console; when the parsers succeed and all validators
  answer \<open>true\<close>, \<open>write\<close> is the notification loop run on the store with the parsed
  value committed, and when the subscribed observers return and leave the value and the
  set of subscriptions of the signal alone (an invariant \<open>I\<close> of the store that they
  keep), \<open>write\<close> returns normally, the store it leaves is the one that executing
  every subscribed observer in turn leaves, and the value is the parsed value. (Without
  the condition on the observers the commit is not all or nothing: the counterexample
  below shows a write that leaves the new value in place, one observer executed and
  another, still subscribed, not.)
\<close>

theorem write_commits_or_rejects:
  "(\<forall>m. run_parsers (parsers (signals w c)) raw = Inl (Error m) \<longrightarrow>
      write' fuel call c raw w = Some (Returned, [], w\<lparr>console := console w @ [ErrorLine m]\<rparr>))
   \<and> (\<forall>v. run_parsers (parsers (signals w c)) raw = Inr v
        \<and> (\<exists>validator\<in>set (validators (signals w c)). validator (value' (signals w c)) v \<noteq> JBool True) \<longrightarrow>
      write' fuel call c raw w =
        Some (Returned, [], w\<lparr>console := console w @
          [ValidationErrors (filter (\<lambda>result. result \<noteq> JBool True)
             (map (\<lambda>validator. validator (value' (signals w c)) v) (validators (signals w c))))]\<rparr>))
   \<and> (\<forall>v. run_parsers (parsers (signals w c)) raw = Inr v
        \<and> (\<forall>validator\<in>set (validators (signals w c)). validator (value' (signals w c)) v = JBool True) \<longrightarrow>
      write' fuel call c raw w = notify fuel call c 0 (update_signal c (\<lambda>s. s\<lparr>value' := v\<rparr>) w))
   \<and> (\<forall>v. run_parsers (parsers (signals w c)) raw = Inr v
        \<and> (\<forall>validator\<in>set (validators (signals w c)). validator (value' (signals w c)) v = JBool True)
        \<and> I (update_signal c (\<lambda>s. s\<lparr>value' := v\<rparr>) w)
        \<and> (\<forall>w'. I w' \<longrightarrow> subscriptions (signals w' c) = subscriptions (signals w c) \<and> value' (signals w' c) = v)
        \<and> (\<forall>ob w'. I w' \<and> Some ob \<in> set (subscriptions (signals w c)) \<longrightarrow>
              (\<exists>w''. execute call ob w' = Some (Returned, w'') \<and> I w''))
        \<and> length (subscriptions (signals w c)) < fuel \<longrightarrow>
      (\<exists>w'. write' fuel call c raw w = Some (Returned, Set_values (subscriptions (signals w c)), w')
          \<and> called_in_turn call (Set_values (subscriptions (signals w c)))
                (update_signal c (\<lambda>s. s\<lparr>value' := v\<rparr>) w) = Some w'
          \<and> value' (signals w' c) = v))"
proof (intro conjI allI impI)
  fix m assume "run_parsers (parsers (signals w c)) raw = Inl (Error m)"
  then show "write' fuel call c raw w = Some (Returned, [], w\<lparr>console := console w @ [ErrorLine m]\<rparr>)"
    by (rule write_parse_failure)
next
  fix v assume "run_parsers (parsers (signals w c)) raw = Inr v
        \<and> (\<exists>validator\<in>set (validators (signals w c)). validator (value' (signals w c)) v \<noteq> JBool True)"
  then show "write' fuel call c raw w =
        Some (Returned, [], w\<lparr>console := console w @
          [ValidationErrors (filter (\<lambda>result. result \<noteq> JBool True)
             (map (\<lambda>validator. validator (value' (signals w c)) v) (validators (signals w c))))]\<rparr>)"
    using write_validation_failure by blast
next
  fix v assume "run_parsers (parsers (signals w c)) raw = Inr v
        \<and> (\<forall>validator\<in>set (validators (signals w c)). validator (value' (signals w c)) v = JBool True)"
  then show "write' fuel call c raw w = notify fuel call c 0 (update_signal c (\<lambda>s. s\<lparr>value' := v\<rparr>) w)"
    using write_accept by blast
next
  fix v assume h: "run_parsers (parsers (signals w c)) raw = Inr v
        \<and> (\<forall>validator\<in>set (validators (signals w c)). validator (value' (signals w c)) v = JBool True)
        \<and> I (update_signal c (\<lambda>s. s\<lparr>value' := v\<rparr>) w)
        \<and> (\<forall>w'. I w' \<longrightarrow> subscriptions (signals w' c) = subscriptions (signals w c) \<and> value' (signals w' c) = v)
        \<and> (\<forall>ob w'. I w' \<and> Some ob \<in> set (subscriptions (signals w c)) \<longrightarrow>
              (\<exists>w''. execute call ob w' = Some (Returned, w'') \<and> I w''))
        \<and> length (subscriptions (signals w c)) < fuel"
  have "\<exists>w'. write' fuel call c raw w = Some (Returned, Set_values (subscriptions (signals w c)), w') \<and> I w'
      \<and> called_in_turn call (Set_values (subscriptions (signals w c)))
            (update_signal c (\<lambda>s. s\<lparr>value' := v\<rparr>) w) = Some w'"
  proof (rule write_commit_all_called [where I = I and v = v])
    show "run_parsers (parsers (signals w c)) raw = Inr v" using h by blast
    show "\<forall>validator\<in>set (validators (signals w c)). validator (value' (signals w c)) v = JBool True"
      using h by blast
    show "I (update_signal c (\<lambda>s. s\<lparr>value' := v\<rparr>) w)" using h by blast
    show "\<And>w'. I w' \<Longrightarrow> subscriptions (signals w' c) = subscriptions (signals w c)" using h by blast
    show "\<And>ob w'. I w' \<Longrightarrow> Some ob \<in> set (subscriptions (signals w c)) \<Longrightarrow>
        \<exists>w''. execute call ob w' = Some (Returned, w'') \<and> I w''" using h by blast
    show "length (subscriptions (signals w c)) < fuel" using h by blast
  qed
  then show "\<exists>w'. write' fuel call c raw w = Some (Returned, Set_values (subscriptions (signals w c)), w')
          \<and> called_in_turn call (Set_values (subscriptions (signals w c)))
                (update_signal c (\<lambda>s. s\<lparr>value' := v\<rparr>) w) = Some w'
          \<and> value' (signals w' c) = v"
    using h by blast
qed

theorem write_commits_or_rejects_witness:
  "write' 1 example_call 0 (JNum 3) pipeline_world
     = Some (Returned, [], pipeline_world\<lparr>console := [ErrorLine ''Invalid answer'']\<rparr>)
   \<and> write' 1 example_call 0 (JStr ''no'') pipeline_world
     = Some (Returned, [], pipeline_world\<lparr>console := [ValidationErrors [JStr ''must be yes'', JStr ''unchanged'']]\<rparr>)
   \<and> write' 1 example_call 0 (JStr ''yes'') pipeline_world
     = notify 1 example_call 0 0 (update_signal 0 (\<lambda>s. s\<lparr>value' := JBool True\<rparr>) pipeline_world)
   \<and> (\<exists>w'. write' 2 example_call 0 (JNum 5) effect_world = Some (Returned, [Effect 0 0 (ReadCount 0)], w')
         \<and> value' (signals w' 0) = JNum 5
         \<and> globals w' ''counter'' = JNum 2)"
proof -
  let ?I = "\<lambda>w'. subscriptions (signals w' 0) = [Some (Effect 0 0 (ReadCount 0))] \<and> value' (signals w' 0) = JNum 5"
  have p1: "run_parsers (parsers (signals pipeline_world 0)) (JNum 3) = Inl (Error ''Invalid answer'')"
    by (simp add: pipeline_world_def example_world_def Signal_def yesNoParser_def)
  have p2: "run_parsers (parsers (signals pipeline_world 0)) (JStr ''no'') = Inr (JBool False)"
    by (simp add: pipeline_world_def example_world_def Signal_def yesNoParser_def)
  have v2: "\<exists>validator\<in>set (validators (signals pipeline_world 0)).
              validator (value' (signals pipeline_world 0)) (JBool False) \<noteq> JBool True"
    by (simp add: pipeline_world_def example_world_def Signal_def yesValidator_def)
  have p4: "run_parsers (parsers (signals pipeline_world 0)) (JStr ''yes'') = Inr (JBool True)"
    by (simp add: pipeline_world_def example_world_def Signal_def yesNoParser_def)
  have v4: "\<forall>validator\<in>set (validators (signals pipeline_world 0)).
              validator (value' (signals pipeline_world 0)) (JBool True) = JBool True"
    by (simp add: pipeline_world_def example_world_def Signal_def yesValidator_def changedValidator_def)
  have p3: "run_parsers (parsers (signals effect_world 0)) (JNum 5) = Inr (JNum 5)"
    by (simp add: effect_world_def example_world_def Signal_def)
  have v3: "\<forall>validator\<in>set (validators (signals effect_world 0)).
              validator (value' (signals effect_world 0)) (JNum 5) = JBool True"
    by (simp add: effect_world_def example_world_def Signal_def)
  have i0: "?I (update_signal 0 (\<lambda>s. s\<lparr>value' := JNum 5\<rparr>) effect_world)"
    by (simp add: update_signal_def effect_world_def example_world_def Signal_def)
  have inv: "\<forall>w'. ?I w' \<longrightarrow> subscriptions (signals w' 0) = subscriptions (signals effect_world 0)
      \<and> value' (signals w' 0) = JNum 5"
    by (simp add: effect_world_def example_world_def Signal_def)
  have step: "\<forall>ob w'. ?I w' \<and> Some ob \<in> set (subscriptions (signals effect_world 0)) \<longrightarrow>
      (\<exists>w''. execute example_call ob w' = Some (Returned, w'') \<and> ?I w'')"
    using effect_step by (simp add: effect_world_def example_world_def Signal_def)
  have fuel: "length (subscriptions (signals effect_world 0)) < 2"
    by (simp add: effect_world_def example_world_def Signal_def)
  have s: "Set_values (subscriptions (signals effect_world 0)) = [Effect 0 0 (ReadCount 0)]"
    "globals effect_world ''counter'' = JNum 1"
    by (simp_all add: effect_world_def example_world_def Signal_def)
  have c1: "write' 1 example_call 0 (JNum 3) pipeline_world
     = Some (Returned, [], pipeline_world\<lparr>console := console pipeline_world @ [ErrorLine ''Invalid answer'']\<rparr>)"
    using write_commits_or_rejects [where w = pipeline_world and c = 0 and raw = "JNum 3" and fuel = 1
        and call = example_call] p1
    by blast
  have c2: "write' 1 example_call 0 (JStr ''no'') pipeline_world
     = Some (Returned, [], pipeline_world\<lparr>console := console pipeline_world @
          [ValidationErrors (filter (\<lambda>result. result \<noteq> JBool True)
             (map (\<lambda>validator. validator (value' (signals pipeline_world 0)) (JBool False))
                (validators (signals pipeline_world 0))))]\<rparr>)"
    using write_commits_or_rejects [where w = pipeline_world and c = 0 and raw = "JStr ''no''" and fuel = 1
        and call = example_call] p2 v2
    by blast
  have c4: "write' 1 example_call 0 (JStr ''yes'') pipeline_world
     = notify 1 example_call 0 0 (update_signal 0 (\<lambda>s. s\<lparr>value' := JBool True\<rparr>) pipeline_world)"
    using write_commits_or_rejects [where w = pipeline_world and c = 0 and raw = "JStr ''yes''" and fuel = 1
        and call = example_call] p4 v4
    by blast
  have "\<exists>w'. write' 2 example_call 0 (JNum 5) effect_world
        = Some (Returned, Set_values (subscriptions (signals effect_world 0)), w')
      \<and> called_in_turn example_call (Set_values (subscriptions (signals effect_world 0)))
            (update_signal 0 (\<lambda>s. s\<lparr>value' := JNum 5\<rparr>) effect_world) = Some w'
      \<and> value' (signals w' 0) = JNum 5"
    using write_commits_or_rejects [where w = effect_world and c = 0 and raw = "JNum 5" and fuel = 2
        and call = example_call and I = ?I] p3 v3 i0 inv step fuel
    by blast
  then obtain w' where
    w: "write' 2 example_call 0 (JNum 5) effect_world = Some (Returned, [Effect 0 0 (ReadCount 0)], w')"
    and t: "called_in_turn example_call [Effect 0 0 (ReadCount 0)]
            (update_signal 0 (\<lambda>s. s\<lparr>value' := JNum 5\<rparr>) effect_world) = Some w'"
    and v: "value' (signals w' 0) = JNum 5"
    unfolding s by blast
  have "globals w' ''counter'' = JNum (1 + 1)"
    using t by (rule counter_after_reading_effect) (simp add: globals_frames s)
  then have c3: "\<exists>w'. write' 2 example_call 0 (JNum 5) effect_world = Some (Returned, [Effect 0 0 (ReadCount 0)], w')
         \<and> value' (signals w' 0) = JNum 5 \<and> globals w' ''counter'' = JNum 2"
    using w v by auto
  have c12: "write' 1 example_call 0 (JNum 3) pipeline_world
     = Some (Returned, [], pipeline_world\<lparr>console := [ErrorLine ''Invalid answer'']\<rparr>)
   \<and> write' 1 example_call 0 (JStr ''no'') pipeline_world
     = Some (Returned, [], pipeline_world\<lparr>console := [ValidationErrors [JStr ''must be yes'', JStr ''unchanged'']]\<rparr>)"
    using c1 c2
    by (simp add: pipeline_world_def example_world_def Signal_def yesValidator_def changedValidator_def)
  show ?thesis using c12 c3 c4 by blast
qed

text \<open>
  The claim as stated fails when an observer throws: the write of 7 is accepted, the
  value is 7 and the counter shows the one run of the first observer, the exception of the
  second leaves \<open>write\<close>, and the observer 3, subscribed before and after, has not
  been executed.
\<close>

theorem write_partial_notification:
  "run_parsers (parsers (signals fanout_world 0)) (JNum 7) = Inr (JNum 7)
   \<and> validators (signals fanout_world 0) = []
   \<and> value' (signals fanout_world 0) = JNum 10
   \<and> globals fanout_world ''counter'' = JNum 0
   \<and> Some (Subscription 3 Count) \<in> set (subscriptions (signals fanout_world 0))
   \<and> write' 3 example_call 0 (JNum 7) fanout_world
     = Some (Threw (Error ''boom''), [Subscription 0 Count, Subscription 2 Boom],
         fanout_world\<lparr>signals := (signals fanout_world)
             (0 := (signals fanout_world 0)\<lparr>value' := JNum 7\<rparr>),
           globals := (globals fanout_world)(''counter'' := JNum 1)\<rparr>)
   \<and> Some (Subscription 3 Count) \<in> set (subscriptions (signals
         (fanout_world\<lparr>signals := (signals fanout_world)
             (0 := (signals fanout_world 0)\<lparr>value' := JNum 7\<rparr>),
           globals := (globals fanout_world)(''counter'' := JNum 1)\<rparr>) 0))"
  by (simp add: write'_def update_signal_def fanout_world_def example_world_def Signal_def increment_def
      numeral_3_eq_3)

subsection \<open>An observer that throws during notification\<close>




subsection \<open>A write followed by a read\<close>




subsection \<open>The validators\<close>

text \<open>
  C6. After a successful parse, the list of verdicts has one entry for each validator, the
  entry at position \<open>i\<close> being validator \<open>i\<close> applied to the pair of the current value
  and the parsed value; the rejections are all the verdicts other than \<open>true\<close>; when
  there is one, \<open>write\<close> commits nothing, notifies nobody and writes all of them to the
  console in one line; when there is none, \<open>write\<close> commits the parsed value and runs
  the notification loop.
\<close>

theorem validators_each_see_same_pair:
  assumes parse: "run_parsers (parsers (signals w c)) raw = Inr v"
  shows "length (map (\<lambda>validator. validator (value' (signals w c)) v) (validators (signals w c)))
        = length (validators (signals w c))
    \<and> (\<forall>i<length (validators (signals w c)).
          map (\<lambda>validator. validator (value' (signals w c)) v) (validators (signals w c)) ! i
            = (validators (signals w c) ! i) (value' (signals w c)) v)
    \<and> set (filter (\<lambda>result. result \<noteq> JBool True)
            (map (\<lambda>validator. validator (value' (signals w c)) v) (validators (signals w c))))
        = {validator (value' (signals w c)) v | validator.
             validator \<in> set (validators (signals w c)) \<and> validator (value' (signals w c)) v \<noteq> JBool True}
    \<and> (filter (\<lambda>result. result \<noteq> JBool True)
            (map (\<lambda>validator. validator (value' (signals w c)) v) (validators (signals w c))) \<noteq> [] \<longrightarrow>
          write' fuel call c raw w =
            Some (Returned, [], w\<lparr>console := console w @
              [ValidationErrors (filter (\<lambda>result. result \<noteq> JBool True)
                 (map (\<lambda>validator. validator (value' (signals w c)) v) (validators (signals w c))))]\<rparr>))
    \<and> (filter (\<lambda>result. result \<noteq> JBool True)
            (map (\<lambda>validator. validator (value' (signals w c)) v) (validators (signals w c))) = [] \<longrightarrow>
          write' fuel call c raw w = notify fuel call c 0 (update_signal c (\<lambda>s. s\<lparr>value' := v\<rparr>) w))"
proof -
  have rej: "filter (\<lambda>result. result \<noteq> JBool True)
            (map (\<lambda>validator. validator (value' (signals w c)) v) (validators (signals w c))) \<noteq> [] \<Longrightarrow>
          write' fuel call c raw w =
            Some (Returned, [], w\<lparr>console := console w @
              [ValidationErrors (filter (\<lambda>result. result \<noteq> JBool True)
                 (map (\<lambda>validator. validator (value' (signals w c)) v) (validators (signals w c))))]\<rparr>)"
    using parse by (simp add: write'_def Let_def)
  have acc: "filter (\<lambda>result. result \<noteq> JBool True)
            (map (\<lambda>validator. validator (value' (signals w c)) v) (validators (signals w c))) = [] \<Longrightarrow>
          write' fuel call c raw w = notify fuel call c 0 (update_signal c (\<lambda>s. s\<lparr>value' := v\<rparr>) w)"
    using parse by (simp add: write'_def Let_def)
  have st: "set (filter (\<lambda>result. result \<noteq> JBool True)
            (map (\<lambda>validator. validator (value' (signals w c)) v) (validators (signals w c))))
        = {validator (value' (signals w c)) v | validator.
             validator \<in> set (validators (signals w c)) \<and> validator (value' (signals w c)) v \<noteq> JBool True}"
    by auto
  show ?thesis using rej acc st by simp
qed

theorem validators_each_see_same_pair_witness:
  "write' 1 example_call 0 (JStr ''no'') pipeline_world
     = Some (Returned, [], pipeline_world\<lparr>console := [ValidationErrors [JStr ''must be yes'', JStr ''unchanged'']]\<rparr>)
   \<and> write' 1 example_call 0 (JStr ''yes'') pipeline_world
     = Some (Returned, [], pipeline_world\<lparr>signals := (signals pipeline_world)
          (0 := (signals pipeline_world 0)\<lparr>value' := JBool True\<rparr>)\<rparr>)
   \<and> map (\<lambda>validator. validator (value' (signals pipeline_world 0)) (JBool False))
         (validators (signals pipeline_world 0)) ! 1
     = changedValidator (JBool False) (JBool False)"
proof -
  have p1: "run_parsers (parsers (signals pipeline_world 0)) (JStr ''no'') = Inr (JBool False)"
    by (simp add: pipeline_world_def example_world_def Signal_def yesNoParser_def)
  have p2: "run_parsers (parsers (signals pipeline_world 0)) (JStr ''yes'') = Inr (JBool True)"
    by (simp add: pipeline_world_def example_world_def Signal_def yesNoParser_def)
  have e1: "filter (\<lambda>result. result \<noteq> JBool True)
      (map (\<lambda>validator. validator (value' (signals pipeline_world 0)) (JBool False)) (validators (signals pipeline_world 0)))
      = [JStr ''must be yes'', JStr ''unchanged'']"
    by (simp add: pipeline_world_def example_world_def Signal_def yesValidator_def changedValidator_def)
  have e2: "filter (\<lambda>result. result \<noteq> JBool True)
      (map (\<lambda>validator. validator (value' (signals pipeline_world 0)) (JBool True)) (validators (signals pipeline_world 0)))
      = []"
    by (simp add: pipeline_world_def example_world_def Signal_def yesValidator_def changedValidator_def)
  have n: "notify 1 example_call 0 0 (update_signal 0 (\<lambda>s. s\<lparr>value' := JBool True\<rparr>) pipeline_world)
      = Some (Returned, [], pipeline_world\<lparr>signals := (signals pipeline_world)
          (0 := (signals pipeline_world 0)\<lparr>value' := JBool True\<rparr>)\<rparr>)"
    by (simp add: update_signal_def pipeline_world_def example_world_def Signal_def)
  have c: "console pipeline_world = []"
    by (simp add: pipeline_world_def example_world_def)
  have vs: "validators (signals pipeline_world 0) = [yesValidator, changedValidator]"
    "value' (signals pipeline_world 0) = JBool False"
    by (simp_all add: pipeline_world_def example_world_def Signal_def)
  have "\<forall>i<length (validators (signals pipeline_world 0)).
      map (\<lambda>validator. validator (value' (signals pipeline_world 0)) (JBool False))
        (validators (signals pipeline_world 0)) ! i
      = (validators (signals pipeline_world 0) ! i) (value' (signals pipeline_world 0)) (JBool False)"
    using validators_each_see_same_pair [OF p1, where fuel = 1 and call = example_call] by blast
  then have c3: "map (\<lambda>validator. validator (value' (signals pipeline_world 0)) (JBool False))
         (validators (signals pipeline_world 0)) ! 1
     = changedValidator (JBool False) (JBool False)"
    by (simp add: vs)
  have c12: "write' 1 example_call 0 (JStr ''no'') pipeline_world
     = Some (Returned, [], pipeline_world\<lparr>console := [ValidationErrors [JStr ''must be yes'', JStr ''unchanged'']]\<rparr>)
   \<and> write' 1 example_call 0 (JStr ''yes'') pipeline_world
     = Some (Returned, [], pipeline_world\<lparr>signals := (signals pipeline_world)
          (0 := (signals pipeline_world 0)\<lparr>value' := JBool True\<rparr>)\<rparr>)"
    using validators_each_see_same_pair [OF p1, where fuel = 1 and call = example_call]
      validators_each_see_same_pair [OF p2, where fuel = 1 and call = example_call]
    by (simp only: e1 e2 n c) simp
  show ?thesis using c12 c3 by blast
qed

subsection \<open>No equality short-circuit\<close>

text \<open>
  C7. As amended: \<open>write\<close> does not compare the parsed value with the current one. A
  write whose parsed value is the current value of the signal, accepted by the
  validators, executes every subscribed observer, and so does the same write repeated,
  when the subscribed observers return and leave the fields of the signal alone (an
  invariant \<open>I\<close> of the store that they keep): the store after each of the two writes is
  the one that executing every subscribed observer in turn leaves. (Without the
  condition on the observers, an observer that is subscribed when \<open>write\<close> is called
  need not be executed: the counterexample below.)
\<close>

theorem write_same_value_notifies_again:
  assumes parse: "run_parsers (parsers (signals w c)) raw = Inr (value' (signals w c))"
    and accept: "\<forall>validator\<in>set (validators (signals w c)).
                   validator (value' (signals w c)) (value' (signals w c)) = JBool True"
    and I0: "I w"
    and inv: "\<forall>w'. I w' \<longrightarrow> subscriptions (signals w' c) = subscriptions (signals w c)
                \<and> value' (signals w' c) = value' (signals w c)
                \<and> parsers (signals w' c) = parsers (signals w c)
                \<and> validators (signals w' c) = validators (signals w c)"
    and step: "\<forall>ob w'. I w' \<and> Some ob \<in> set (subscriptions (signals w c)) \<longrightarrow>
                 (\<exists>w''. execute call ob w' = Some (Returned, w'') \<and> I w'')"
    and fuel: "length (subscriptions (signals w c)) < fuel"
  shows "\<exists>w1 w2. write' fuel call c raw w = Some (Returned, Set_values (subscriptions (signals w c)), w1)
          \<and> called_in_turn call (Set_values (subscriptions (signals w c))) w = Some w1
          \<and> value' (signals w1 c) = value' (signals w c)
          \<and> write' fuel call c raw w1 = Some (Returned, Set_values (subscriptions (signals w c)), w2)
          \<and> called_in_turn call (Set_values (subscriptions (signals w c))) w1 = Some w2
          \<and> value' (signals w2 c) = value' (signals w c)"
proof -
  have again: "\<exists>w2. write' fuel call c raw w1 = Some (Returned, Set_values (subscriptions (signals w c)), w2) \<and> I w2
      \<and> called_in_turn call (Set_values (subscriptions (signals w c))) w1 = Some w2"
    if I1: "I w1" for w1
  proof -
    have same: "subscriptions (signals w1 c) = subscriptions (signals w c)"
      "value' (signals w1 c) = value' (signals w c)"
      "parsers (signals w1 c) = parsers (signals w c)"
      "validators (signals w1 c) = validators (signals w c)"
      using inv I1 by blast+
    have "\<exists>w2. write' fuel call c raw w1 = Some (Returned, Set_values (subscriptions (signals w1 c)), w2) \<and> I w2
        \<and> called_in_turn call (Set_values (subscriptions (signals w1 c)))
            (update_signal c (\<lambda>s. s\<lparr>value' := value' (signals w1 c)\<rparr>) w1) = Some w2"
    proof (rule write_commit_all_called [where I = I and v = "value' (signals w1 c)"])
      show "run_parsers (parsers (signals w1 c)) raw = Inr (value' (signals w1 c))"
        using parse by (simp only: same)
      show "\<forall>validator\<in>set (validators (signals w1 c)).
          validator (value' (signals w1 c)) (value' (signals w1 c)) = JBool True"
        using accept by (simp only: same)
      show "I (update_signal c (\<lambda>s. s\<lparr>value' := value' (signals w1 c)\<rparr>) w1)"
        using I1 by (simp only: update_value_same)
      show "\<And>w'. I w' \<Longrightarrow> subscriptions (signals w' c) = subscriptions (signals w1 c)"
        using inv same(1) by simp
      show "\<And>ob w'. I w' \<Longrightarrow> Some ob \<in> set (subscriptions (signals w1 c)) \<Longrightarrow>
          \<exists>w''. execute call ob w' = Some (Returned, w'') \<and> I w''"
        using step same(1) by simp
      show "length (subscriptions (signals w1 c)) < fuel"
        using fuel by (simp only: same)
    qed
    then show ?thesis by (simp only: update_value_same same(1))
  qed
  from again [OF I0] obtain w1 where
    w1: "write' fuel call c raw w = Some (Returned, Set_values (subscriptions (signals w c)), w1)" and I1: "I w1"
    and t1: "called_in_turn call (Set_values (subscriptions (signals w c))) w = Some w1"
    by blast
  from again [OF I1] obtain w2 where
    w2: "write' fuel call c raw w1 = Some (Returned, Set_values (subscriptions (signals w c)), w2)" and I2: "I w2"
    and t2: "called_in_turn call (Set_values (subscriptions (signals w c))) w1 = Some w2"
    by blast
  have "value' (signals w1 c) = value' (signals w c)" "value' (signals w2 c) = value' (signals w c)"
    using inv I1 I2 by blast+
  then show ?thesis using w1 w2 t1 t2 by blast
qed

theorem write_same_value_witness:
  "\<exists>w1 w2. write' 2 example_call 0 (JNum 10) effect_world = Some (Returned, [Effect 0 0 (ReadCount 0)], w1)
      \<and> value' (signals w1 0) = JNum 10
      \<and> globals w1 ''counter'' = JNum 2
      \<and> write' 2 example_call 0 (JNum 10) w1 = Some (Returned, [Effect 0 0 (ReadCount 0)], w2)
      \<and> value' (signals w2 0) = JNum 10
      \<and> globals w2 ''counter'' = JNum 3"
proof -
  let ?I = "\<lambda>w'. signals w' 0 = signals effect_world 0"
  have s: "subscriptions (signals effect_world 0) = [Some (Effect 0 0 (ReadCount 0))]"
    "value' (signals effect_world 0) = JNum 10"
    by (simp_all add: effect_world_def example_world_def Signal_def)
  have g: "globals effect_world ''counter'' = JNum 1"
    by (simp add: effect_world_def example_world_def)
  have parse: "run_parsers (parsers (signals effect_world 0)) (JNum 10) = Inr (value' (signals effect_world 0))"
    by (simp add: effect_world_def example_world_def Signal_def)
  have accept: "\<forall>validator\<in>set (validators (signals effect_world 0)).
      validator (value' (signals effect_world 0)) (value' (signals effect_world 0)) = JBool True"
    by (simp add: effect_world_def example_world_def Signal_def)
  have inv: "\<forall>w'. ?I w' \<longrightarrow> subscriptions (signals w' 0) = subscriptions (signals effect_world 0)
                \<and> value' (signals w' 0) = value' (signals effect_world 0)
                \<and> parsers (signals w' 0) = parsers (signals effect_world 0)
                \<and> validators (signals w' 0) = validators (signals effect_world 0)"
    by simp
  have step: "\<forall>ob w'. ?I w' \<and> Some ob \<in> set (subscriptions (signals effect_world 0)) \<longrightarrow>
                 (\<exists>w''. execute example_call ob w' = Some (Returned, w'') \<and> ?I w'')"
    using reading_effect_step [where n = 0 and c = 0] by (auto simp add: s)
  have fuel: "length (subscriptions (signals effect_world 0)) < 2" by (simp add: s)
  obtain w1 w2 where
    r1: "write' 2 example_call 0 (JNum 10) effect_world = Some (Returned, [Effect 0 0 (ReadCount 0)], w1)"
    and t1: "called_in_turn example_call [Effect 0 0 (ReadCount 0)] effect_world = Some w1"
    and v1: "value' (signals w1 0) = JNum 10"
    and r2: "write' 2 example_call 0 (JNum 10) w1 = Some (Returned, [Effect 0 0 (ReadCount 0)], w2)"
    and t2: "called_in_turn example_call [Effect 0 0 (ReadCount 0)] w1 = Some w2"
    and v2: "value' (signals w2 0) = JNum 10"
    using write_same_value_notifies_again [where I = ?I and call = example_call, OF parse accept _ inv step fuel]
    unfolding s Set_values.simps by blast
  have g1: "globals w1 ''counter'' = JNum (1 + 1)"
    using t1 g by (rule counter_after_reading_effect)
  have g2: "globals w2 ''counter'' = JNum (1 + 1 + 1)"
    using t2 g1 by (rule counter_after_reading_effect)
  show ?thesis using r1 v1 g1 r2 v2 g2 by auto
qed

text \<open>
  The claim as stated fails when an observer throws or unsubscribes another. The write
  of the current value 10 is accepted in both stores. In the first, the first observer
  throws, and the counting observer, still subscribed, is not executed. In the second,
  the first observer unsubscribes the counting observer, which was subscribed when
  \<open>write\<close> was called, and the loop passes over it. The counter is 0 after both.
\<close>

theorem subscribed_observer_not_executed:
  "run_parsers (parsers (signals failing_first_world 0)) (JNum 10) = Inr (value' (signals failing_first_world 0))
   \<and> validators (signals failing_first_world 0) = []
   \<and> Some (Subscription 1 Tally) \<in> set (subscriptions (signals failing_first_world 0))
   \<and> write' 3 meddling_call 0 (JNum 10) failing_first_world
       = Some (Threw (Error ''boom''), [Subscription 0 Fail], failing_first_world)
   \<and> globals failing_first_world ''counter'' = JNum 0
   \<and> run_parsers (parsers (signals unsubscribing_world 0)) (JNum 10) = Inr (value' (signals unsubscribing_world 0))
   \<and> validators (signals unsubscribing_world 0) = []
   \<and> Some (Subscription 1 Tally) \<in> set (subscriptions (signals unsubscribing_world 0))
   \<and> write' 3 meddling_call 0 (JNum 10) unsubscribing_world
       = Some (Returned, [Subscription 0 (UnsubscribeTally 0 1)],
           meddling_world [Some (Subscription 0 (UnsubscribeTally 0 1)), None])
   \<and> globals (meddling_world [Some (Subscription 0 (UnsubscribeTally 0 1)), None]) ''counter'' = JNum 0"
  by (simp add: write'_def update_signal_def failing_first_world_def unsubscribing_world_def
      meddling_world_def Signal_def numeral_3_eq_3 Let_def unsubscribe_def)

subsection \<open>Reading\<close>

text \<open>
  C8. \<open>read()\<close> is idempotent. It returns the current value; a second \<open>read\<close>
  returns the same value and the same store as the first, and so does any number of
  further reads; the value is not changed; with an empty context stack the store is not
  changed at all; with an observer on top of the stack the set of subscriptions is left
  as it is when the observer is already in it and gets that one new entry otherwise.
\<close>

theorem read_idempotent:
  "fst (read c w) = value' (signals w c)
   \<and> read c (snd (read c w)) = read c w
   \<and> ((\<lambda>w. snd (read c w)) ^^ Suc n) w = snd (read c w)
   \<and> fst (read c (((\<lambda>w. snd (read c w)) ^^ n) w)) = value' (signals w c)
   \<and> value' (signals (snd (read c w)) c) = value' (signals w c)
   \<and> (context' (signals w c) = [] \<longrightarrow> snd (read c w) = w)
   \<and> (context' (signals w c) \<noteq> [] \<longrightarrow>
        subscriptions (signals (snd (read c w)) c) =
          (if Some (last (context' (signals w c))) \<in> set (subscriptions (signals w c))
           then subscriptions (signals w c)
           else subscriptions (signals w c) @ [Some (last (context' (signals w c)))]))"
proof -
  have "fst (read c (((\<lambda>w. snd (read c w)) ^^ n) w)) = value' (signals w c)"
  proof (cases n)
    case 0
    then show ?thesis by (simp add: read_value)
  next
    case (Suc m)
    then show ?thesis by (simp only: reads_many read_value read_keeps_value)
  qed
  then show ?thesis
    using read_twice [of c w] reads_many [where c = c and n = n and w = w]
    by (simp add: read_value read_keeps_value read_empty_context read_subscriptions Set_add_def)
qed

theorem read_idempotent_witness:
  "read 0 (snd (read 0 (push_context 0 (Effect 0 0 (ReadOnly 0)) example_world)))
     = read 0 (push_context 0 (Effect 0 0 (ReadOnly 0)) example_world)
   \<and> subscriptions (signals (snd (read 0 (push_context 0 (Effect 0 0 (ReadOnly 0)) example_world))) 0)
     = [Some (Effect 0 0 (ReadOnly 0))]
   \<and> snd (read 0 example_world) = example_world"
proof -
  have empty: "context' (signals example_world 0) = []"
    by (simp add: example_world_def Signal_def)
  have running: "context' (signals (push_context 0 (Effect 0 0 (ReadOnly 0)) example_world) 0) \<noteq> []"
    by (simp add: context_push)
  show ?thesis
    using read_idempotent [where c = 0 and w = example_world and n = 0]
      read_idempotent [where c = 0 and w = "push_context 0 (Effect 0 0 (ReadOnly 0)) example_world" and n = 0]
      empty running
    by (simp add: context_push push_context_def update_signal_def example_world_def Signal_def)
qed

subsection \<open>Subscribing and unsubscribing\<close>

text \<open>
  C9. \<open>subscribe(fn)\<close> builds a new observer and adds it to the set; it calls no
  function, so the console and the variables of the callbacks are as before and of the
  signals only the set of this one has changed. The first call of the function it
  returns answers \<open>true\<close> and leaves the observers that were there before; a second call
  answers \<open>false\<close> and leaves the store as it is. The same holds when the function is
  called in any later store \<open>w2\<close>: the observer is no longer in the set, the others
  are, a further call changes nothing, and an accepted write after it (with observers
  that return and leave the set alone) returns without having executed the observer.
  (The entries of a set are distinct, and the counter of identities is above the
  identities in the set.)
\<close>

theorem subscribe_then_unsubscribe:
  assumes fresh: "\<forall>ob\<in>set (Set_values (subscriptions (signals w c))). oid ob < next_oid w"
    and dist: "distinct (Set_values (subscriptions (signals w c)))"
    and dist2: "distinct (Set_values (subscriptions (signals w2 c)))"
  shows "fst (subscribe c fn w) = Subscription (next_oid w) fn
    \<and> signals (snd (subscribe c fn w)) =
         (signals w)(c := (signals w c)\<lparr>subscriptions :=
            subscriptions (signals w c) @ [Some (Subscription (next_oid w) fn)]\<rparr>)
    \<and> console (snd (subscribe c fn w)) = console w
    \<and> globals (snd (subscribe c fn w)) = globals w
    \<and> Set_values (subscriptions (signals (snd (subscribe c fn w)) c))
         = Set_values (subscriptions (signals w c)) @ [Subscription (next_oid w) fn]
    \<and> fst (unsubscribe c (Subscription (next_oid w) fn) (snd (subscribe c fn w))) = True
    \<and> Set_values (subscriptions (signals
           (snd (unsubscribe c (Subscription (next_oid w) fn) (snd (subscribe c fn w)))) c))
         = Set_values (subscriptions (signals w c))
    \<and> unsubscribe c (Subscription (next_oid w) fn)
           (snd (unsubscribe c (Subscription (next_oid w) fn) (snd (subscribe c fn w))))
         = (False, snd (unsubscribe c (Subscription (next_oid w) fn) (snd (subscribe c fn w))))
    \<and> Subscription (next_oid w) fn
         \<notin> set (Set_values (subscriptions (signals (snd (unsubscribe c (Subscription (next_oid w) fn) w2)) c)))
    \<and> Set_values (subscriptions (signals (snd (unsubscribe c (Subscription (next_oid w) fn) w2)) c))
         = remove1 (Subscription (next_oid w) fn) (Set_values (subscriptions (signals w2 c)))
    \<and> unsubscribe c (Subscription (next_oid w) fn) (snd (unsubscribe c (Subscription (next_oid w) fn) w2))
         = (False, snd (unsubscribe c (Subscription (next_oid w) fn) w2))
    \<and> (run_parsers (parsers (signals (snd (unsubscribe c (Subscription (next_oid w) fn) w2)) c)) raw = Inr v
        \<and> (\<forall>validator\<in>set (validators (signals (snd (unsubscribe c (Subscription (next_oid w) fn) w2)) c)).
              validator (value' (signals (snd (unsubscribe c (Subscription (next_oid w) fn) w2)) c)) v = JBool True)
        \<and> I (update_signal c (\<lambda>s. s\<lparr>value' := v\<rparr>) (snd (unsubscribe c (Subscription (next_oid w) fn) w2)))
        \<and> (\<forall>w'. I w' \<longrightarrow> subscriptions (signals w' c)
              = subscriptions (signals (snd (unsubscribe c (Subscription (next_oid w) fn) w2)) c))
        \<and> (\<forall>ob w'. I w' \<and> Some ob
                \<in> set (subscriptions (signals (snd (unsubscribe c (Subscription (next_oid w) fn) w2)) c)) \<longrightarrow>
              (\<exists>w''. execute call ob w' = Some (Returned, w'') \<and> I w''))
        \<and> length (subscriptions (signals (snd (unsubscribe c (Subscription (next_oid w) fn) w2)) c)) < fuel \<longrightarrow>
         (\<exists>ex w'. write' fuel call c raw (snd (unsubscribe c (Subscription (next_oid w) fn) w2))
              = Some (Returned, ex, w')
            \<and> Subscription (next_oid w) fn \<notin> set ex))"
proof -
  let ?eff = "Subscription (next_oid w) fn"
  let ?subs = "subscriptions (signals w c)"
  let ?w1 = "snd (subscribe c fn w)"
  let ?w3 = "snd (unsubscribe c ?eff w2)"
  have new: "Some ?eff \<notin> set ?subs" using fresh by (rule fresh_not_subscribed)
  then have notin: "?eff \<notin> set (Set_values ?subs)" by (simp add: set_Set_values)
  have add: "Set_add ?eff ?subs = ?subs @ [Some ?eff]" using new by (simp add: Set_add_def)
  have subs1: "subscriptions (signals ?w1 c) = ?subs @ [Some ?eff]"
    by (simp add: subscribe_fields add)
  have vals1: "Set_values (subscriptions (signals ?w1 c)) = Set_values ?subs @ [?eff]"
    by (simp add: subs1 Set_values_append)
  have dist1: "distinct (Set_values (subscriptions (signals ?w1 c)))"
    using dist notin by (simp add: vals1)
  have first: "fst (unsubscribe c ?eff ?w1) = True"
    by (simp add: unsubscribe_def fst_Set_delete subs1)
  have restored: "Set_values (subscriptions (signals (snd (unsubscribe c ?eff ?w1)) c)) = Set_values ?subs"
    using notin by (simp add: unsubscribe_subscriptions Set_values_Set_delete vals1 remove1_append)
  have gone2: "?eff \<notin> set (Set_values (subscriptions (signals (snd (unsubscribe c ?eff w2)) c)))"
    using dist2 by (simp add: unsubscribe_subscriptions Set_values_Set_delete)
  have rem2: "Set_values (subscriptions (signals (snd (unsubscribe c ?eff w2)) c))
         = remove1 ?eff (Set_values (subscriptions (signals w2 c)))"
    by (simp add: unsubscribe_subscriptions Set_values_Set_delete)
  have later: "\<exists>ex w'. write' fuel call c raw ?w3 = Some (Returned, ex, w') \<and> ?eff \<notin> set ex"
    if h: "run_parsers (parsers (signals ?w3 c)) raw = Inr v
        \<and> (\<forall>validator\<in>set (validators (signals ?w3 c)). validator (value' (signals ?w3 c)) v = JBool True)
        \<and> I (update_signal c (\<lambda>s. s\<lparr>value' := v\<rparr>) ?w3)
        \<and> (\<forall>w'. I w' \<longrightarrow> subscriptions (signals w' c) = subscriptions (signals ?w3 c))
        \<and> (\<forall>ob w'. I w' \<and> Some ob \<in> set (subscriptions (signals ?w3 c)) \<longrightarrow>
              (\<exists>w''. execute call ob w' = Some (Returned, w'') \<and> I w''))
        \<and> length (subscriptions (signals ?w3 c)) < fuel"
  proof -
    have "\<exists>w'. write' fuel call c raw ?w3
        = Some (Returned, Set_values (subscriptions (signals ?w3 c)), w') \<and> I w'"
    proof (rule write_commit_all [where I = I and v = v])
      show "run_parsers (parsers (signals ?w3 c)) raw = Inr v" using h by blast
      show "\<forall>validator\<in>set (validators (signals ?w3 c)). validator (value' (signals ?w3 c)) v = JBool True"
        using h by blast
      show "I (update_signal c (\<lambda>s. s\<lparr>value' := v\<rparr>) ?w3)" using h by blast
      show "\<And>w'. I w' \<Longrightarrow> subscriptions (signals w' c) = subscriptions (signals ?w3 c)"
        using h by blast
      show "\<And>ob w'. I w' \<Longrightarrow> Some ob \<in> set (subscriptions (signals ?w3 c)) \<Longrightarrow>
          \<exists>w''. execute call ob w' = Some (Returned, w'') \<and> I w''"
        using h by blast
      show "length (subscriptions (signals ?w3 c)) < fuel" using h by blast
    qed
    then show ?thesis using gone2 by blast
  qed
  have rest: "fst (subscribe c fn w) = Subscription (next_oid w) fn
    \<and> signals (snd (subscribe c fn w)) =
         (signals w)(c := (signals w c)\<lparr>subscriptions := ?subs @ [Some ?eff]\<rparr>)
    \<and> console (snd (subscribe c fn w)) = console w
    \<and> globals (snd (subscribe c fn w)) = globals w
    \<and> Set_values (subscriptions (signals ?w1 c)) = Set_values ?subs @ [?eff]
    \<and> fst (unsubscribe c ?eff ?w1) = True
    \<and> Set_values (subscriptions (signals (snd (unsubscribe c ?eff ?w1)) c)) = Set_values ?subs
    \<and> unsubscribe c ?eff (snd (unsubscribe c ?eff ?w1)) = (False, snd (unsubscribe c ?eff ?w1))
    \<and> ?eff \<notin> set (Set_values (subscriptions (signals ?w3 c)))
    \<and> Set_values (subscriptions (signals ?w3 c)) = remove1 ?eff (Set_values (subscriptions (signals w2 c)))
    \<and> unsubscribe c ?eff ?w3 = (False, ?w3)"
    using first restored gone2 rem2 vals1 unsubscribe_twice [OF dist1] unsubscribe_twice [OF dist2]
    by (simp add: subscribe_fields add)
  show ?thesis
    using rest later by blast
qed

theorem subscribe_then_unsubscribe_witness:
  "fst (subscribe 0 Count effect_world) = Subscription 1 Count
   \<and> Set_values (subscriptions (signals (snd (subscribe 0 Count effect_world)) 0))
       = [Effect 0 0 (ReadCount 0), Subscription 1 Count]
   \<and> globals (snd (subscribe 0 Count effect_world)) ''counter'' = JNum 1
   \<and> fst (unsubscribe 0 (Subscription 1 Count) (snd (subscribe 0 Count effect_world))) = True
   \<and> Set_values (subscriptions (signals
          (snd (unsubscribe 0 (Subscription 1 Count) (snd (subscribe 0 Count effect_world)))) 0))
       = [Effect 0 0 (ReadCount 0)]
   \<and> unsubscribe 0 (Subscription 1 Count)
          (snd (unsubscribe 0 (Subscription 1 Count) (snd (subscribe 0 Count effect_world))))
       = (False, snd (unsubscribe 0 (Subscription 1 Count) (snd (subscribe 0 Count effect_world))))
   \<and> (\<exists>ex w'. write' 3 example_call 0 (JNum 5)
          (snd (unsubscribe 0 (Subscription 1 Count) (snd (subscribe 0 Count effect_world))))
        = Some (Returned, ex, w')
      \<and> Subscription 1 Count \<notin> set ex)"
proof -
  let ?eff = "Subscription (next_oid effect_world) Count"
  let ?w2 = "snd (subscribe 0 Count effect_world)"
  let ?w3 = "snd (unsubscribe 0 ?eff ?w2)"
  let ?I = "\<lambda>w'. signals w' 0 = (signals ?w3 0)\<lparr>value' := JNum 5\<rparr>"
  have s: "subscriptions (signals effect_world 0) = [Some (Effect 0 0 (ReadCount 0))]"
    "next_oid effect_world = 1" "globals effect_world ''counter'' = JNum 1"
    by (simp_all add: effect_world_def example_world_def Signal_def)
  have s3: "signals ?w3 0 = (Signal (JNum 10) [] [])\<lparr>subscriptions := [Some (Effect 0 0 (ReadCount 0)), None]\<rparr>"
    by (simp add: unsubscribe_def subscribe_def Let_def update_signal_def Set_add_def
        effect_world_def example_world_def Signal_def)
  have fresh: "\<forall>ob\<in>set (Set_values (subscriptions (signals effect_world 0))). oid ob < next_oid effect_world"
    by (simp add: s)
  have dist: "distinct (Set_values (subscriptions (signals effect_world 0)))"
    by (simp add: s)
  have dist2: "distinct (Set_values (subscriptions (signals ?w2 0)))"
    by (simp add: subscribe_fields Set_add_def s)
  have later: "run_parsers (parsers (signals ?w3 0)) (JNum 5) = Inr (JNum 5)
      \<and> (\<forall>validator\<in>set (validators (signals ?w3 0)). validator (value' (signals ?w3 0)) (JNum 5) = JBool True)
      \<and> ?I (update_signal 0 (\<lambda>s. s\<lparr>value' := JNum 5\<rparr>) ?w3)
      \<and> (\<forall>w'. ?I w' \<longrightarrow> subscriptions (signals w' 0) = subscriptions (signals ?w3 0))
      \<and> (\<forall>ob w'. ?I w' \<and> Some ob \<in> set (subscriptions (signals ?w3 0)) \<longrightarrow>
            (\<exists>w''. execute example_call ob w' = Some (Returned, w'') \<and> ?I w''))
      \<and> length (subscriptions (signals ?w3 0)) < 3"
  proof (intro conjI allI impI)
    fix ob and w' :: "example_fn world"
    assume a: "?I w' \<and> Some ob \<in> set (subscriptions (signals ?w3 0))"
    then have ob: "ob = Effect 0 0 (ReadCount 0)" unfolding s3 by simp
    have "Some (Effect 0 0 (ReadCount 0)) \<in> set (subscriptions (signals w' 0))"
      using a unfolding s3 by simp
    then show "\<exists>w''. execute example_call ob w' = Some (Returned, w'') \<and> ?I w''"
      unfolding ob using reading_effect_step [where n = 0 and c = 0 and w' = w'] a by auto
  qed (simp_all only: s3 signals_update_signal, simp_all add: Signal_def)
  note t = subscribe_then_unsubscribe [OF fresh dist dist2, where fn = Count and I = ?I and call = example_call
        and raw = "JNum 5" and v = "JNum 5" and fuel = 3]
  have fin: "\<exists>ex w'. write' 3 example_call 0 (JNum 5) ?w3 = Some (Returned, ex, w') \<and> ?eff \<notin> set ex"
    using t later by blast
  have pre: "fst (subscribe 0 Count effect_world) = ?eff
      \<and> globals ?w2 = globals effect_world
      \<and> Set_values (subscriptions (signals ?w2 0)) = Set_values (subscriptions (signals effect_world 0)) @ [?eff]
      \<and> fst (unsubscribe 0 ?eff ?w2) = True
      \<and> Set_values (subscriptions (signals ?w3 0)) = Set_values (subscriptions (signals effect_world 0))
      \<and> unsubscribe 0 ?eff ?w3 = (False, ?w3)"
    using t by blast
  show ?thesis
    using fin pre by (simp add: s)
qed

subsection \<open>The verdict of a validator\<close>

text \<open>
  C10. After a successful parse, every verdict that is not the value \<open>true\<close> itself is
  among the rejections that \<open>write\<close> reports, and \<open>write\<close> then commits nothing and
  notifies nobody; only when every validator answers \<open>true\<close> does \<open>write\<close> commit and
  notify. The instance below has a validator that answers the number 1.
\<close>

theorem verdict_is_strict_true:
  assumes parse: "run_parsers (parsers (signals w c)) raw = Inr v"
  shows "(\<forall>validator\<in>set (validators (signals w c)). validator (value' (signals w c)) v \<noteq> JBool True \<longrightarrow>
            (\<exists>errors. validator (value' (signals w c)) v \<in> set errors
               \<and> write' fuel call c raw w
                   = Some (Returned, [], w\<lparr>console := console w @ [ValidationErrors errors]\<rparr>)))
       \<and> ((\<forall>validator\<in>set (validators (signals w c)). validator (value' (signals w c)) v = JBool True) \<longrightarrow>
            write' fuel call c raw w = notify fuel call c 0 (update_signal c (\<lambda>s. s\<lparr>value' := v\<rparr>) w))"
proof (intro conjI ballI impI)
  fix validator
  assume "validator \<in> set (validators (signals w c))" "validator (value' (signals w c)) v \<noteq> JBool True"
  then have "\<exists>validator\<in>set (validators (signals w c)). validator (value' (signals w c)) v \<noteq> JBool True"
    and "validator (value' (signals w c)) v \<in> set (filter (\<lambda>result. result \<noteq> JBool True)
          (map (\<lambda>validator. validator (value' (signals w c)) v) (validators (signals w c))))"
    by auto
  then show "\<exists>errors. validator (value' (signals w c)) v \<in> set errors
               \<and> write' fuel call c raw w
                   = Some (Returned, [], w\<lparr>console := console w @ [ValidationErrors errors]\<rparr>)"
    using write_validation_failure [OF parse] by blast
next
  assume "\<forall>validator\<in>set (validators (signals w c)). validator (value' (signals w c)) v = JBool True"
  then show "write' fuel call c raw w = notify fuel call c 0 (update_signal c (\<lambda>s. s\<lparr>value' := v\<rparr>) w)"
    using write_accept [OF parse] by blast
qed

theorem verdict_is_strict_true_witness:
  "(\<exists>errors. JNum 1 \<in> set errors
      \<and> write' 1 example_call 0 (JNum 5) truthy_world
          = Some (Returned, [], truthy_world\<lparr>console := console truthy_world @ [ValidationErrors errors]\<rparr>))
   \<and> write' 1 example_call 0 (JStr ''yes'') pipeline_world
       = notify 1 example_call 0 0 (update_signal 0 (\<lambda>s. s\<lparr>value' := JBool True\<rparr>) pipeline_world)"
proof -
  have p1: "run_parsers (parsers (signals truthy_world 0)) (JNum 5) = Inr (JNum 5)"
    by (simp add: truthy_world_def example_world_def Signal_def)
  have v1: "constantValidator (JNum 1) \<in> set (validators (signals truthy_world 0))"
    "constantValidator (JNum 1) (value' (signals truthy_world 0)) (JNum 5) = JNum 1"
    by (simp_all add: truthy_world_def example_world_def Signal_def constantValidator_def)
  have p2: "run_parsers (parsers (signals pipeline_world 0)) (JStr ''yes'') = Inr (JBool True)"
    by (simp add: pipeline_world_def example_world_def Signal_def yesNoParser_def)
  have v2: "\<forall>validator\<in>set (validators (signals pipeline_world 0)).
      validator (value' (signals pipeline_world 0)) (JBool True) = JBool True"
    by (simp add: pipeline_world_def example_world_def Signal_def yesValidator_def changedValidator_def)
  have c1: "\<exists>errors. constantValidator (JNum 1) (value' (signals truthy_world 0)) (JNum 5) \<in> set errors
      \<and> write' 1 example_call 0 (JNum 5) truthy_world
          = Some (Returned, [], truthy_world\<lparr>console := console truthy_world @ [ValidationErrors errors]\<rparr>)"
  proof -
    have "\<forall>validator\<in>set (validators (signals truthy_world 0)).
        validator (value' (signals truthy_world 0)) (JNum 5) \<noteq> JBool True \<longrightarrow>
          (\<exists>errors. validator (value' (signals truthy_world 0)) (JNum 5) \<in> set errors
             \<and> write' 1 example_call 0 (JNum 5) truthy_world
                 = Some (Returned, [], truthy_world\<lparr>console := console truthy_world @ [ValidationErrors errors]\<rparr>))"
      using verdict_is_strict_true [OF p1, where fuel = 1 and call = example_call] by (rule conjunct1)
    then have "constantValidator (JNum 1) (value' (signals truthy_world 0)) (JNum 5) \<noteq> JBool True \<longrightarrow>
          (\<exists>errors. constantValidator (JNum 1) (value' (signals truthy_world 0)) (JNum 5) \<in> set errors
             \<and> write' 1 example_call 0 (JNum 5) truthy_world
                 = Some (Returned, [], truthy_world\<lparr>console := console truthy_world @ [ValidationErrors errors]\<rparr>))"
      using v1(1) by (rule bspec)
    then show ?thesis by (simp only: v1(2)) simp
  qed
  have c2: "write' 1 example_call 0 (JStr ''yes'') pipeline_world
       = notify 1 example_call 0 0 (update_signal 0 (\<lambda>s. s\<lparr>value' := JBool True\<rparr>) pipeline_world)"
    using verdict_is_strict_true [OF p2, where fuel = 1 and call = example_call] v2 by blast
  show ?thesis using c1 c2 v1 by simp
qed

end
